theory Spec2Isabelle
  imports Main "HOL-Library.Sublist" "HOL-Library.AList"
begin

section \<open>Strings\<close>

text \<open>
  JavaScript strings are modelled as \<^typ>\<open>string\<close>, the list of the bytes of
  their UTF-8 encoding. \<open>toUpperCase\<close> and \<open>toLowerCase\<close> are modelled on the
  ASCII letters, where the Unicode mapping of the runtime agrees; other characters are
  left as they are, so that the two functions are those of the runtime on texts of ASCII
  characters.
\<close>

definition toUpperCase_char :: "char \<Rightarrow> char" where
  "toUpperCase_char c =
     (let n = (of_char c :: nat) in if 97 \<le> n \<and> n \<le> 122 then char_of (n - 32) else c)"

definition toLowerCase_char :: "char \<Rightarrow> char" where
  "toLowerCase_char c =
     (let n = (of_char c :: nat) in if 65 \<le> n \<and> n \<le> 90 then char_of (n + 32) else c)"

definition toUpperCase :: "string \<Rightarrow> string" where
  "toUpperCase s = map toUpperCase_char s"

definition toLowerCase :: "string \<Rightarrow> string" where
  "toLowerCase s = map toLowerCase_char s"

definition newline :: string where
  "newline = [CHR 0x0A]"

definition squote :: char where
  "squote = CHR 0x27"

definition dquote :: char where
  "dquote = CHR 0x22"

definition backtick :: char where
  "backtick = CHR 0x60"

subsection \<open>\<open>String.prototype.replace\<close> with a string pattern\<close>

text \<open>
  \<open>GetSubstitution\<close> of the language standard, for a match without capture groups:
  in the replacement text \<open>$$\<close> stands for a dollar sign, \<open>$&\<close> for the matched text,
  \<open>$`\<close> for the text before the match and \<open>$'\<close> for the text after it. A dollar sign
  followed by anything else (a digit included, as there is no capture) is kept.
\<close>

fun GetSubstitution :: "string \<Rightarrow> string \<Rightarrow> string \<Rightarrow> string \<Rightarrow> string" where
  "GetSubstitution matched preceding following [] = []"
| "GetSubstitution matched preceding following [c] = [c]"
| "GetSubstitution matched preceding following (c # d # rest) =
     (if c = CHR ''$'' then
        (if d = CHR ''$'' then CHR ''$'' # GetSubstitution matched preceding following rest
         else if d = CHR ''&'' then matched @ GetSubstitution matched preceding following rest
         else if d = backtick then preceding @ GetSubstitution matched preceding following rest
         else if d = squote then following @ GetSubstitution matched preceding following rest
         else c # GetSubstitution matched preceding following (d # rest))
      else c # GetSubstitution matched preceding following (d # rest))"

text \<open>\<open>indexOf\<close>: the position of the first occurrence of the pattern, if any.\<close>

fun indexOf :: "string \<Rightarrow> string \<Rightarrow> nat option" where
  "indexOf [] searchString = (if searchString = [] then Some 0 else None)"
| "indexOf (c # s) searchString =
     (if prefix searchString (c # s) then Some 0
      else map_option Suc (indexOf s searchString))"

text \<open>
  \<open>s.replace(searchString, replaceValue)\<close> with two strings: only the first
  occurrence is replaced, and the replacement text goes through \<open>GetSubstitution\<close>.
\<close>

definition String_replace :: "string \<Rightarrow> string \<Rightarrow> string \<Rightarrow> string" where
  "String_replace s searchString replaceValue =
     (case indexOf s searchString of
        None \<Rightarrow> s
      | Some pos \<Rightarrow>
          (let preceding = take pos s;
               following = drop (pos + length searchString) s
           in preceding @ GetSubstitution searchString preceding following replaceValue
                @ following))"

subsection \<open>\<open>String.prototype.replace\<close> with a global regular expression\<close>

text \<open>
  The regular expressions of \<open>updateAssetPaths\<close> are sequences of literal characters
  and of one optional character class (\<open>['"]?\<close>, greedy). \<open>rx_match\<close> gives the length
  of the match that starts at the beginning of the text, trying the optional character
  first and backtracking to the empty alternative.
\<close>

datatype atom = Chr char | OptOneOf "char list"

fun rx_match :: "atom list \<Rightarrow> string \<Rightarrow> nat option" where
  "rx_match [] s = Some 0"
| "rx_match (Chr c # rx) [] = None"
| "rx_match (Chr c # rx) (x # s) =
     (if x = c then map_option Suc (rx_match rx s) else None)"
| "rx_match (OptOneOf cs # rx) [] = rx_match rx []"
| "rx_match (OptOneOf cs # rx) (x # s) =
     (if x \<in> set cs then
        (case rx_match rx s of
           Some n \<Rightarrow> Some (Suc n)
         | None \<Rightarrow> rx_match rx (x # s))
      else rx_match rx (x # s))"

text \<open>
  The global replacement scans from the left: at a position where the expression
  matches, the substitution is emitted and the scan resumes after the match (one
  character further when the match is empty); elsewhere the character is copied.
\<close>

fun RegExp_replace_from :: "atom list \<Rightarrow> string \<Rightarrow> string \<Rightarrow> string \<Rightarrow> string" where
  "RegExp_replace_from rx replaceValue preceding [] =
     (case rx_match rx [] of
        Some n \<Rightarrow> GetSubstitution [] preceding [] replaceValue
      | None \<Rightarrow> [])"
| "RegExp_replace_from rx replaceValue preceding (c # s) =
     (case rx_match rx (c # s) of
        None \<Rightarrow> c # RegExp_replace_from rx replaceValue (preceding @ [c]) s
      | Some n \<Rightarrow>
          (if n = 0 then
             GetSubstitution [] preceding (c # s) replaceValue
               @ c # RegExp_replace_from rx replaceValue (preceding @ [c]) s
           else
             GetSubstitution (take n (c # s)) preceding (drop n (c # s)) replaceValue
               @ RegExp_replace_from rx replaceValue (preceding @ take n (c # s))
                   (drop n (c # s))))"

definition RegExp_replace_g :: "string \<Rightarrow> atom list \<Rightarrow> string \<Rightarrow> string" where
  "RegExp_replace_g s rx replaceValue = RegExp_replace_from rx replaceValue [] s"

section \<open>The file system\<close>

text \<open>
  A file system is a tree: a regular file with its text, or a directory with its entries
  in listing order (the order in which \<open>readdirSync\<close> gives them). A path is the list
  of its names, relative to the directory the build is run from, so that the configured
  \<open>./components\<close> is the path of the one name \<open>components\<close>; \<open>path.join\<close> of a
  directory and entry names is list concatenation. A name is looked up among the entries
  of a directory from the front. Links, permissions and a full disk are not modelled.
\<close>

datatype node = File string | Dir "(string \<times> node) list"

type_synonym path = "string list"

datatype error = ENOENT | EISDIR | ENOTDIR | EEXIST

definition path_join :: "path \<Rightarrow> string list \<Rightarrow> path" where
  "path_join dir names = dir @ names"

fun lookup :: "node \<Rightarrow> path \<Rightarrow> node option" where
  "lookup n [] = Some n"
| "lookup (File d) (x # p) = None"
| "lookup (Dir es) (x # p) =
     (case map_of es x of None \<Rightarrow> None | Some c \<Rightarrow> lookup c p)"

fun isDirectory :: "node \<Rightarrow> bool" where
  "isDirectory (Dir es) = True"
| "isDirectory (File d) = False"

definition existsSync :: "node \<Rightarrow> path \<Rightarrow> bool" where
  "existsSync fs p = (lookup fs p \<noteq> None)"

text \<open>
  \<open>readFileSync\<close> gives the bytes of a file. The build reads its texts with the
  \<open>utf8\<close> encoding; for a file that is well-formed UTF-8 the string it gets is, in that
  encoding, the bytes of the file.
\<close>

definition readFileSync :: "node \<Rightarrow> path \<Rightarrow> error + string" where
  "readFileSync fs p =
     (case lookup fs p of
        None \<Rightarrow> Inl ENOENT
      | Some (Dir es) \<Rightarrow> Inl EISDIR
      | Some (File d) \<Rightarrow> Inr d)"

text \<open>\<open>readdirSync\<close> with \<open>withFileTypes\<close>: the entries, each with its node.\<close>

definition readdirSync :: "node \<Rightarrow> path \<Rightarrow> error + (string \<times> node) list" where
  "readdirSync fs p =
     (case lookup fs p of
        None \<Rightarrow> Inl ENOENT
      | Some (File d) \<Rightarrow> Inl ENOTDIR
      | Some (Dir es) \<Rightarrow> Inr es)"

text \<open>
  \<open>writeFileSync\<close> creates the file in an existing directory (listed last) or
  overwrites an existing file; it fails on a directory and below a missing directory.
\<close>

fun writeFileSync :: "node \<Rightarrow> path \<Rightarrow> string \<Rightarrow> error + node" where
  "writeFileSync (File d) [] text = Inr (File text)"
| "writeFileSync (Dir es) [] text = Inl EISDIR"
| "writeFileSync (File d) (x # p) text = Inl ENOTDIR"
| "writeFileSync (Dir es) (x # p) text =
     (case map_of es x of
        None \<Rightarrow> (if p = [] then Inr (Dir (es @ [(x, File text)])) else Inl ENOENT)
      | Some c \<Rightarrow>
          (case writeFileSync c p text of
             Inl e \<Rightarrow> Inl e
           | Inr c' \<Rightarrow> Inr (Dir (AList.update x c' es))))"

text \<open>\<open>mkdirSync\<close> with \<open>recursive: true\<close>: missing directories are created.\<close>

fun mkdirSync :: "node \<Rightarrow> path \<Rightarrow> error + node" where
  "mkdirSync (Dir es) [] = Inr (Dir es)"
| "mkdirSync (File d) [] = Inl EEXIST"
| "mkdirSync (File d) (x # p) = Inl ENOTDIR"
| "mkdirSync (Dir es) (x # p) =
     (case map_of es x of
        None \<Rightarrow>
          (case mkdirSync (Dir []) p of
             Inl e \<Rightarrow> Inl e
           | Inr c' \<Rightarrow> Inr (Dir (es @ [(x, c')])))
      | Some c \<Rightarrow>
          (case mkdirSync c p of
             Inl e \<Rightarrow> Inl e
           | Inr c' \<Rightarrow> Inr (Dir (AList.update x c' es))))"

text \<open>
  \<open>copyFileSync\<close> reads the source, which fails on a directory and on a missing
  entry, and writes the bytes to the destination, created or overwritten.
\<close>

definition copyFileSync :: "node \<Rightarrow> path \<Rightarrow> path \<Rightarrow> error + node" where
  "copyFileSync fs src dest =
     (case readFileSync fs src of
        Inl e \<Rightarrow> Inl e
      | Inr bytes \<Rightarrow> writeFileSync fs dest bytes)"

subsection \<open>Outcomes of a stage\<close>

text \<open>
  A stage either completes, or throws; a thrown error carries the file system as it was
  when the error was thrown, since nothing is rolled back.
\<close>

datatype outcome = Done node | Threw error node

definition attempt :: "node \<Rightarrow> error + node \<Rightarrow> outcome" where
  "attempt fs r = (case r of Inl e \<Rightarrow> Threw e fs | Inr fs' \<Rightarrow> Done fs')"

fun andThen :: "outcome \<Rightarrow> (node \<Rightarrow> outcome) \<Rightarrow> outcome" where
  "andThen (Done fs) f = f fs"
| "andThen (Threw e fs) f = Threw e fs"

text \<open>\<open>forEach\<close> with a body that accumulates a text, and with a body that writes.\<close>

fun forEach_text :: "('a \<Rightarrow> string \<Rightarrow> error + string) \<Rightarrow> 'a list \<Rightarrow> string \<Rightarrow> error + string" where
  "forEach_text body [] acc = Inr acc"
| "forEach_text body (x # xs) acc =
     (case body x acc of Inl e \<Rightarrow> Inl e | Inr acc' \<Rightarrow> forEach_text body xs acc')"

fun forEach_fs :: "('a \<Rightarrow> node \<Rightarrow> error + node) \<Rightarrow> 'a list \<Rightarrow> node \<Rightarrow> outcome" where
  "forEach_fs body [] fs = Done fs"
| "forEach_fs body (x # xs) fs =
     (case body x fs of Inl e \<Rightarrow> Threw e fs | Inr fs' \<Rightarrow> forEach_fs body xs fs')"

section \<open>The build script\<close>

text \<open>
  The functions of \<open>build.js\<close>, in the order of the file. What a function prints to
  the console is left out; everything it reads, writes and throws is kept.
\<close>

subsection \<open>Configuration\<close>

definition componentsDir :: path where
  "componentsDir = [''components'']"

definition coreStylesDir :: path where
  "coreStylesDir = [''core'', ''styles'']"

definition coreScriptsDir :: path where
  "coreScriptsDir = [''core'', ''scripts'']"

definition buildDir :: path where
  "buildDir = [''build'']"

definition templateFile :: path where
  "templateFile = [''index-template.html'']"

text \<open>The names of the directories among the entries of the components directory.\<close>

definition componentDirs :: "node \<Rightarrow> error + string list" where
  "componentDirs fs =
     (case readdirSync fs componentsDir of
        Inl e \<Rightarrow> Inl e
      | Inr dirents \<Rightarrow> Inr (map fst (filter (\<lambda>dirent. isDirectory (snd dirent)) dirents)))"

definition componentFile :: "string \<Rightarrow> string \<Rightarrow> path" where
  "componentFile componentName ext =
     path_join componentsDir [componentName, toLowerCase componentName @ ext]"

subsection \<open>buildHTML\<close>

text \<open>
  \<open>insertComponent\<close> is the body of the loop over the component directories,
  \<open>mergedHTML\<close> the template after the loop, and \<open>buildHTML\<close> writes it.
\<close>

definition placeholder :: "string \<Rightarrow> string" where
  "placeholder componentName = ''<!-- '' @ toUpperCase componentName @ '' -->''"

definition insertComponent :: "node \<Rightarrow> string \<Rightarrow> string \<Rightarrow> error + string" where
  "insertComponent fs componentName template =
     (let htmlFile = componentFile componentName ''.html'' in
      if existsSync fs htmlFile then
        (case readFileSync fs htmlFile of
           Inl e \<Rightarrow> Inl e
         | Inr componentHtml \<Rightarrow>
             Inr (String_replace template (placeholder componentName) componentHtml))
      else Inr template)"

definition mergedHTML :: "node \<Rightarrow> error + string" where
  "mergedHTML fs =
     (case readFileSync fs templateFile of
        Inl e \<Rightarrow> Inl e
      | Inr template \<Rightarrow>
          (case componentDirs fs of
             Inl e \<Rightarrow> Inl e
           | Inr dirs \<Rightarrow> forEach_text (insertComponent fs) dirs template))"

definition buildHTML :: "node \<Rightarrow> outcome" where
  "buildHTML fs =
     (case mergedHTML fs of
        Inl e \<Rightarrow> Threw e fs
      | Inr template \<Rightarrow>
          attempt fs (writeFileSync fs (path_join buildDir [''index.html'']) template))"

subsection \<open>buildCSS and buildJS\<close>

definition coreStyles :: "string list" where
  "coreStyles =
     [''variables.css'', ''reset.css'', ''typography.css'', ''layout.css'', ''utilities.css'']"

definition coreScripts :: "string list" where
  "coreScripts = [''utils.js'', ''main.js'']"

text \<open>The body of the loop over the core files, of \<open>buildCSS\<close> and of \<open>buildJS\<close>.\<close>

definition appendCoreFile :: "node \<Rightarrow> path \<Rightarrow> string \<Rightarrow> string \<Rightarrow> error + string" where
  "appendCoreFile fs dir file combined =
     (let filePath = path_join dir [file] in
      if existsSync fs filePath then
        (case readFileSync fs filePath of
           Inl e \<Rightarrow> Inl e
         | Inr text \<Rightarrow> Inr (combined @ text @ newline))
      else Inr combined)"

definition banner :: "string \<Rightarrow> string \<Rightarrow> string" where
  "banner componentName kind = ''/* '' @ componentName @ '' Component '' @ kind @ '' */'' @ newline"

text \<open>
  The body of the component loop of \<open>buildCSS\<close> (extension \<open>.css\<close>, banner word
  \<open>Styles\<close>) and of \<open>buildJS\<close> (extension \<open>.js\<close>, banner word \<open>Script\<close>); the two
  functions differ in nothing else but their core directory, core list and output file.
\<close>

definition appendComponentFile ::
  "node \<Rightarrow> string \<Rightarrow> string \<Rightarrow> string \<Rightarrow> string \<Rightarrow> error + string" where
  "appendComponentFile fs ext kind componentName combined =
     (let file = componentFile componentName ext in
      if existsSync fs file then
        (case readFileSync fs file of
           Inl e \<Rightarrow> Inl e
         | Inr text \<Rightarrow>
             Inr ((combined @ banner componentName kind) @ text @ newline))
      else Inr combined)"

definition combined ::
  "node \<Rightarrow> path \<Rightarrow> string list \<Rightarrow> string \<Rightarrow> string \<Rightarrow> error + string" where
  "combined fs coreDir coreFiles ext kind =
     (case forEach_text (appendCoreFile fs coreDir) coreFiles [] of
        Inl e \<Rightarrow> Inl e
      | Inr core \<Rightarrow>
          (case componentDirs fs of
             Inl e \<Rightarrow> Inl e
           | Inr dirs \<Rightarrow> forEach_text (appendComponentFile fs ext kind) dirs core))"

definition combinedCSS :: "node \<Rightarrow> error + string" where
  "combinedCSS fs = combined fs coreStylesDir coreStyles ''.css'' ''Styles''"

definition combinedJS :: "node \<Rightarrow> error + string" where
  "combinedJS fs = combined fs coreScriptsDir coreScripts ''.js'' ''Script''"

definition buildCSS :: "node \<Rightarrow> outcome" where
  "buildCSS fs =
     (case combinedCSS fs of
        Inl e \<Rightarrow> Threw e fs
      | Inr text \<Rightarrow> attempt fs (writeFileSync fs (path_join buildDir [''styles.css'']) text))"

definition buildJS :: "node \<Rightarrow> outcome" where
  "buildJS fs =
     (case combinedJS fs of
        Inl e \<Rightarrow> Threw e fs
      | Inr text \<Rightarrow> attempt fs (writeFileSync fs (path_join buildDir [''scripts.js'']) text))"

subsection \<open>copyAssets\<close>

definition ensureDir :: "node \<Rightarrow> path \<Rightarrow> outcome" where
  "ensureDir fs dir =
     (if \<not> existsSync fs dir then attempt fs (mkdirSync fs dir) else Done fs)"

definition copyEntry :: "path \<Rightarrow> path \<Rightarrow> string \<Rightarrow> node \<Rightarrow> error + node" where
  "copyEntry srcDir destDir name fs =
     copyFileSync fs (path_join srcDir [name]) (path_join destDir [name])"

text \<open>
  The block run for the images and for the fonts: when the source directory exists, the
  destination directory is created if needed and every entry of the source directory
  (\<open>readdirSync\<close> without file types: the names only) is copied.
\<close>

definition copyDir :: "path \<Rightarrow> path \<Rightarrow> node \<Rightarrow> outcome" where
  "copyDir srcDir destDir fs =
     (if existsSync fs srcDir then
        andThen (ensureDir fs destDir)
          (\<lambda>fs. case readdirSync fs srcDir of
                  Inl e \<Rightarrow> Threw e fs
                | Inr entries \<Rightarrow> forEach_fs (copyEntry srcDir destDir) (map fst entries) fs)
      else Done fs)"

definition buildAssetsDir :: path where
  "buildAssetsDir = path_join buildDir [''assets'']"

definition imagesDir :: path where
  "imagesDir = [''core'', ''assets'', ''images'']"

definition fontsDir :: path where
  "fontsDir = [''core'', ''assets'', ''fonts'']"

definition buildImagesDir :: path where
  "buildImagesDir = path_join buildAssetsDir [''images'']"

definition buildFontsDir :: path where
  "buildFontsDir = path_join buildAssetsDir [''fonts'']"

definition copyAssets :: "node \<Rightarrow> outcome" where
  "copyAssets fs =
     andThen (ensureDir fs buildAssetsDir)
       (\<lambda>fs. andThen (copyDir imagesDir buildImagesDir fs) (copyDir fontsDir buildFontsDir))"

subsection \<open>updateAssetPaths\<close>

text \<open>
  The four regular expressions, \<open>/src="core\/assets\/images\//g\<close>,
  \<open>/href="core\/assets\/images\//g\<close>, \<open>/url\(['"]?core\/assets\/images\//g\<close> and
  \<open>/url\(['"]?core\/assets\/fonts\//g\<close>, and the two rewritings made of them.
\<close>

definition rx_src_images :: "atom list" where
  "rx_src_images = map Chr (''src='' @ [dquote] @ ''core/assets/images/'')"

definition rx_href_images :: "atom list" where
  "rx_href_images = map Chr (''href='' @ [dquote] @ ''core/assets/images/'')"

definition rx_url_images :: "atom list" where
  "rx_url_images =
     map Chr ''url('' @ [OptOneOf [squote, dquote]] @ map Chr ''core/assets/images/''"

definition rx_url_fonts :: "atom list" where
  "rx_url_fonts =
     map Chr ''url('' @ [OptOneOf [squote, dquote]] @ map Chr ''core/assets/fonts/''"

definition rewriteHTML :: "string \<Rightarrow> string" where
  "rewriteHTML htmlContent =
     RegExp_replace_g
       (RegExp_replace_g htmlContent rx_src_images
          (''src='' @ [dquote] @ ''build/assets/images/''))
       rx_href_images (''href='' @ [dquote] @ ''build/assets/images/'')"

definition rewriteCSS :: "string \<Rightarrow> string" where
  "rewriteCSS cssContent =
     RegExp_replace_g
       (RegExp_replace_g cssContent rx_url_images
          (''url('' @ [squote] @ ''build/assets/images/''))
       rx_url_fonts (''url('' @ [squote] @ ''build/assets/fonts/'')"

definition rewriteFile :: "path \<Rightarrow> (string \<Rightarrow> string) \<Rightarrow> node \<Rightarrow> outcome" where
  "rewriteFile file rewrite fs =
     (if existsSync fs file then
        (case readFileSync fs file of
           Inl e \<Rightarrow> Threw e fs
         | Inr content \<Rightarrow> attempt fs (writeFileSync fs file (rewrite content)))
      else Done fs)"

definition updateAssetPaths :: "node \<Rightarrow> outcome" where
  "updateAssetPaths fs =
     andThen (rewriteFile (path_join buildDir [''index.html'']) rewriteHTML fs)
       (rewriteFile (path_join buildDir [''styles.css'']) rewriteCSS)"

subsection \<open>runBuild and the script as a whole\<close>

definition runBuild :: "node \<Rightarrow> outcome" where
  "runBuild fs =
     andThen (buildHTML fs)
       (\<lambda>fs. andThen (buildCSS fs)
          (\<lambda>fs. andThen (buildJS fs)
             (\<lambda>fs. andThen (copyAssets fs) updateAssetPaths)))"

text \<open>The script: the build directory is created if it is missing, then the build runs.\<close>

definition script :: "node \<Rightarrow> outcome" where
  "script fs = andThen (ensureDir fs buildDir) runBuild"

section \<open>Notions used to state the properties\<close>

text \<open>What a path holds, and the names that \<open>readdirSync\<close> gives for a directory.\<close>

definition isDir :: "node \<Rightarrow> path \<Rightarrow> bool" where
  "isDir fs p = (case lookup fs p of Some (Dir es) \<Rightarrow> True | _ \<Rightarrow> False)"

definition isFile :: "node \<Rightarrow> path \<Rightarrow> bool" where
  "isFile fs p = (case lookup fs p of Some (File d) \<Rightarrow> True | _ \<Rightarrow> False)"

definition fileText :: "node \<Rightarrow> path \<Rightarrow> string" where
  "fileText fs p = (case lookup fs p of Some (File d) \<Rightarrow> d | _ \<Rightarrow> [])"

definition entryNames :: "node \<Rightarrow> path \<Rightarrow> string list" where
  "entryNames fs dir = (case lookup fs dir of Some (Dir es) \<Rightarrow> map fst es | _ \<Rightarrow> [])"

text \<open>The three files that the build writes, and the text of a file once a stage has completed.\<close>

definition indexHtml :: path where
  "indexHtml = path_join buildDir [''index.html'']"

definition stylesCss :: path where
  "stylesCss = path_join buildDir [''styles.css'']"

definition scriptsJs :: path where
  "scriptsJs = path_join buildDir [''scripts.js'']"

fun outputText :: "outcome \<Rightarrow> path \<Rightarrow> error + string" where
  "outputText (Done fs) p = readFileSync fs p"
| "outputText (Threw e fs) p = Inl e"

text \<open>A name without angle brackets, and a text that has them at its two ends only.\<close>

definition plainName :: "string \<Rightarrow> bool" where
  "plainName name \<longleftrightarrow> CHR ''<'' \<notin> set name \<and> CHR ''>'' \<notin> set name"

definition delimited :: "string \<Rightarrow> bool" where
  "delimited p \<longleftrightarrow>
     (case p of
        [] \<Rightarrow> False
      | c # r \<Rightarrow> c = CHR ''<'' \<and> r \<noteq> [] \<and> last r = CHR ''>'' \<and> CHR ''<'' \<notin> set r
                 \<and> CHR ''>'' \<notin> set (butlast r))"

subsection \<open>Names and texts as the runtime has them\<close>

text \<open>
  The script reads the template, the component files and the core files with the
  \<open>utf8\<close> encoding, works on the decoded strings and writes strings back. For a file
  whose bytes are well-formed UTF-8 the string read and written back is the bytes of the
  file, and the search for an ASCII text in it finds the same places; this is what the
  texts of the model are. On ill-formed bytes the runtime puts U+FFFD, which the model
  does not; and the case mappings of the model are those of the runtime on ASCII names
  only. The properties that depend on either are therefore stated for directory names
  of ASCII characters and for files that are well-formed UTF-8 (Unicode Standard,
  table 3-7).
\<close>

definition asciiName :: "string \<Rightarrow> bool" where
  "asciiName name \<longleftrightarrow> list_all (\<lambda>c. (of_char c :: nat) < 128) name"

definition byteIn :: "nat \<Rightarrow> nat \<Rightarrow> char \<Rightarrow> bool" where
  "byteIn lo hi c \<longleftrightarrow> lo \<le> (of_char c :: nat) \<and> (of_char c :: nat) \<le> hi"

fun utf8Text :: "string \<Rightarrow> bool" where
  "utf8Text [] = True"
| "utf8Text (a # s) =
     (if byteIn 0x00 0x7F a then utf8Text s
      else if byteIn 0xC2 0xDF a then
        (case s of b # s' \<Rightarrow> byteIn 0x80 0xBF b \<and> utf8Text s' | _ \<Rightarrow> False)
      else if byteIn 0xE0 0xE0 a then
        (case s of b # c # s' \<Rightarrow> byteIn 0xA0 0xBF b \<and> byteIn 0x80 0xBF c \<and> utf8Text s'
         | _ \<Rightarrow> False)
      else if byteIn 0xE1 0xEC a \<or> byteIn 0xEE 0xEF a then
        (case s of b # c # s' \<Rightarrow> byteIn 0x80 0xBF b \<and> byteIn 0x80 0xBF c \<and> utf8Text s'
         | _ \<Rightarrow> False)
      else if byteIn 0xED 0xED a then
        (case s of b # c # s' \<Rightarrow> byteIn 0x80 0x9F b \<and> byteIn 0x80 0xBF c \<and> utf8Text s'
         | _ \<Rightarrow> False)
      else if byteIn 0xF0 0xF0 a then
        (case s of b # c # d # s' \<Rightarrow>
           byteIn 0x90 0xBF b \<and> byteIn 0x80 0xBF c \<and> byteIn 0x80 0xBF d \<and> utf8Text s'
         | _ \<Rightarrow> False)
      else if byteIn 0xF1 0xF3 a then
        (case s of b # c # d # s' \<Rightarrow>
           byteIn 0x80 0xBF b \<and> byteIn 0x80 0xBF c \<and> byteIn 0x80 0xBF d \<and> utf8Text s'
         | _ \<Rightarrow> False)
      else if byteIn 0xF4 0xF4 a then
        (case s of b # c # d # s' \<Rightarrow>
           byteIn 0x80 0x8F b \<and> byteIn 0x80 0xBF c \<and> byteIn 0x80 0xBF d \<and> utf8Text s'
         | _ \<Rightarrow> False)
      else False)"

text \<open>
  The component directories of the given names have ASCII names, and their files of the
  given extension, where there are any, are well-formed UTF-8.
\<close>

definition textComponents :: "node \<Rightarrow> string \<Rightarrow> string list \<Rightarrow> bool" where
  "textComponents fs ext names \<longleftrightarrow>
     list_all (\<lambda>name. asciiName name \<and> utf8Text (fileText fs (componentFile name ext))) names"


text \<open>
  A replacement text that \<open>GetSubstitution\<close> leaves as it is: no dollar sign in it is
  followed by \<open>$\<close>, \<open>&\<close>, a backtick or a single quote.
\<close>

fun plainReplacement :: "string \<Rightarrow> bool" where
  "plainReplacement [] = True"
| "plainReplacement [c] = True"
| "plainReplacement (c # d # rest) =
     (\<not> (c = CHR ''$'' \<and> (d = CHR ''$'' \<or> d = CHR ''&'' \<or> d = backtick \<or> d = squote))
      \<and> plainReplacement (d # rest))"

text \<open>The comment \<open><!-- NAME -->\<close>, for a name given in the case it is written in.\<close>

definition marker :: "string \<Rightarrow> string" where
  "marker NAME = ''<!-- '' @ NAME @ '' -->''"

subsection \<open>Substitution of literal prefixes\<close>

text \<open>
  The substitution in the words of the specification: scanning from the left, wherever
  one of the given literal texts starts, the replacement is put in its place and the scan
  resumes after it; every other character is copied.
\<close>

function substitute_all :: "string list \<Rightarrow> string \<Rightarrow> string \<Rightarrow> string" where
  "substitute_all literals replacement [] = []"
| "substitute_all literals replacement (c # s) =
     (case find (\<lambda>p. p \<noteq> [] \<and> prefix p (c # s)) literals of
        Some p \<Rightarrow> replacement @ substitute_all literals replacement (drop (length p) (c # s))
      | None \<Rightarrow> c # substitute_all literals replacement s)"
  by pat_completeness auto
termination
  by (relation "measure (\<lambda>(literals, replacement, s). length s)")
     (auto simp: find_Some_iff)

definition html_src_literals :: "string list" where
  "html_src_literals = [''src='' @ [dquote] @ ''core/assets/images/'']"

definition html_href_literals :: "string list" where
  "html_href_literals = [''href='' @ [dquote] @ ''core/assets/images/'']"

definition css_url_literals :: "string \<Rightarrow> string list" where
  "css_url_literals kind =
     [''url('' @ [squote] @ ''core/assets/'' @ kind @ ''/'',
      ''url('' @ [dquote] @ ''core/assets/'' @ kind @ ''/'',
      ''url(core/assets/'' @ kind @ ''/'']"

text \<open>
  Of the three literal texts that a CSS expression matches, the single-quoted one, and
  the other two.
\<close>

definition css_url_quoted :: "string \<Rightarrow> string" where
  "css_url_quoted kind = ''url('' @ [squote] @ ''core/assets/'' @ kind @ ''/''"

definition css_url_unquoted :: "string \<Rightarrow> string list" where
  "css_url_unquoted kind =
     [''url('' @ [dquote] @ ''core/assets/'' @ kind @ ''/'',
      ''url(core/assets/'' @ kind @ ''/'']"

subsection \<open>The state after a build\<close>

text \<open>Two file systems with the same template, components and core files.\<close>

definition sameInputs :: "node \<Rightarrow> node \<Rightarrow> bool" where
  "sameInputs fs fs' \<longleftrightarrow>
     lookup fs' templateFile = lookup fs templateFile
     \<and> lookup fs' componentsDir = lookup fs componentsDir
     \<and> lookup fs' [''core''] = lookup fs [''core'']"

text \<open>
  What a completed build leaves behind: for a source directory of assets that exists, its
  destination with a file for every entry; and the three output files.
\<close>

definition copied :: "node \<Rightarrow> path \<Rightarrow> path \<Rightarrow> bool" where
  "copied fs src dst \<longleftrightarrow>
     (existsSync fs src \<longrightarrow>
        isDir fs src \<and> existsSync fs dst
        \<and> (\<forall>n\<in>set (entryNames fs src). isFile fs (src @ [n]) \<and> isFile fs (dst @ [n])))"

definition built :: "node \<Rightarrow> bool" where
  "built fs \<longleftrightarrow>
     isFile fs indexHtml \<and> isFile fs stylesCss \<and> isFile fs scriptsJs
     \<and> existsSync fs buildAssetsDir
     \<and> copied fs imagesDir buildImagesDir \<and> copied fs fontsDir buildFontsDir"

subsection \<open>Example file systems\<close>

definition ex_fs :: node where
  "ex_fs = Dir
     [(''index-template.html'', File ''<h1><!-- A --></h1><!-- Z -->''),
      (''components'', Dir
         [(''A'', Dir [(''a.html'', File ''hi''), (''a.css'', File ''a{}'')]),
          (''B'', Dir [(''b.js'', File ''b()'')]),
          (''C'', Dir [(''c.html'', File ''never'')]),
          (''notes.txt'', File ''n'')]),
      (''core'', Dir
         [(''styles'', Dir [(''reset.css'', File ''r{}'')]),
          (''scripts'', Dir [(''main.js'', File ''m()'')]),
          (''assets'', Dir [(''images'', Dir [(''i.png'', File ''PNG'')])])]),
      (''build'', Dir [(''assets'', Dir [(''images'', Dir [(''old.png'', File ''OLD'')])])])]"

definition twice_fs :: node where
  "twice_fs = Dir
     [(''index-template.html'', File ''<!-- A --> and <!-- A -->''),
      (''components'', Dir [(''A'', Dir [(''a.html'', File ''x'')])]),
      (''build'', Dir [])]"

definition dollar_fs :: node where
  "dollar_fs = Dir
     [(''index-template.html'', File ''<p><!-- A --></p>''),
      (''components'', Dir [(''A'', Dir [(''a.html'', File ''$&'')])]),
      (''build'', Dir [])]"

definition nested_fs :: node where
  "nested_fs = Dir
     [(''index-template.html'', File ''<!-- A -->''),
      (''components'', Dir
         [(''A'', Dir [(''a.html'', File ''<!-- B -->'')]),
          (''B'', Dir [(''b.html'', File ''hi'')])]),
      (''build'', Dir [])]"

definition nested_fs_omitted :: node where
  "nested_fs_omitted = Dir
     [(''index-template.html'', File ''<!-- A -->''),
      (''components'', Dir
         [(''A'', Dir [(''a.html'', File ''<!-- B -->'')])]),
      (''build'', Dir [])]"

definition overlap_fs :: node where
  "overlap_fs = Dir
     [(''index-template.html'', File ''<!-- A --><!-- B -->''),
      (''components'', Dir
         [(''A --><!-- B'', Dir [(''a --><!-- b.html'', File ''x'')])]),
      (''build'', Dir [])]"

definition quoted_fs :: node where
  "quoted_fs = Dir
     [(''build'', Dir
         [(''styles.css'', File
             (''a{background:url('' @ [dquote] @ ''core/assets/images/x.png'' @ [dquote]
                @ '')}b{src:url(core/assets/fonts/f.woff)}''))])]"

definition no_template_fs :: node where
  "no_template_fs = Dir
     [(''components'', Dir []),
      (''build'', Dir [(''index.html'', File ''old'')])]"

definition subdir_fs :: node where
  "subdir_fs = Dir
     [(''core'', Dir
         [(''assets'', Dir
            [(''images'', Dir
               [(''a.png'', File ''A''),
                (''icons'', Dir [(''x.png'', File ''X'')])])])]),
      (''build'', Dir [])]"

definition first_fs :: node where
  "first_fs = Dir
     [(''index-template.html'', File ''<h1><!-- A --></h1><!-- A --><!-- B -->''),
      (''components'', Dir
         [(''Z'', Dir [(''z.html'', File ''zz'')]),
          (''A'', Dir [(''a.html'', File (''$5 caf'' @ [CHR 0xC3, CHR 0xA9]))]),
          (''B'', Dir [(''b.html'', File ''b'')])]),
      (''build'', Dir [])]"

definition ex_fs_omitted :: node where
  "ex_fs_omitted = Dir
     [(''index-template.html'', File ''<h1><!-- A --></h1><!-- Z -->''),
      (''components'', Dir
         [(''A'', Dir [(''a.html'', File ''hi''), (''a.css'', File ''a{}'')]),
          (''B'', Dir [(''b.js'', File ''b()'')]),
          (''notes.txt'', File ''n'')]),
      (''build'', Dir [])]"

definition rewrite_fs :: node where
  "rewrite_fs = Dir
     [(''build'', Dir
         [(''index.html'', File
             (''<img src='' @ [dquote] @ ''core/assets/images/logo.png'' @ [dquote]
                @ ''><a href='' @ [dquote] @ ''core/assets/images-extra/x'' @ [dquote]
                @ ''><link href='' @ [dquote] @ ''core/assets/images/i.ico'' @ [dquote] @ ''>'')),
          (''styles.css'', File
             (''a{background:url('' @ [squote] @ ''core/assets/images/x.png'' @ [squote]
                @ '')}b{src:url('' @ [squote] @ ''core/assets/fonts/f.woff'' @ [squote]
                @ '')}c{background:url(core/assets/images-extra/y.png)}''))])]"

section \<open>Texts\<close>

lemma GetSubstitution_plain:
  "CHR ''$'' \<notin> set replaceValue \<Longrightarrow> GetSubstitution m p f replaceValue = replaceValue"
  by (induction m p f replaceValue rule: GetSubstitution.induct) auto

lemma indexOf_None: "indexOf s p = None \<longleftrightarrow> \<not> sublist p s"
  by (induction s) (auto simp: sublist_Cons_right)

lemma indexOf_Some:
  "indexOf s p = Some n \<Longrightarrow> s = take n s @ p @ drop (n + length p) s"
proof (induction s arbitrary: n)
  case Nil
  then show ?case by (simp split: if_splits)
next
  case (Cons c s)
  show ?case
  proof (cases "prefix p (c # s)")
    case True
    with Cons.prems have n: "n = 0" by simp
    from True obtain r where "c # s = p @ r" by (auto simp: prefix_def)
    with n show ?thesis by simp
  next
    case False
    with Cons.prems obtain k where k: "indexOf s p = Some k" "n = Suc k" by auto
    from Cons.IH[OF k(1)] k(2) show ?thesis by simp
  qed
qed

lemma indexOf_first:
  "\<not> sublist p (pre @ butlast p) \<Longrightarrow> indexOf (pre @ p @ post) p = Some (length pre)"
proof (induction pre)
  case Nil
  have "prefix p (p @ post)" by simp
  then show ?case by (cases "p @ post") (simp_all del: prefix_code)
next
  case (Cons a pre)
  from Cons.prems have pne: "p \<noteq> []" by auto
  have np: "\<not> prefix p (a # pre @ p @ post)"
  proof
    assume pp: "prefix p (a # pre @ p @ post)"
    have "prefix (a # pre @ butlast p) (a # pre @ p @ post)"
      using pne by (metis append_butlast_last_id append_assoc prefix_def Cons_eq_appendI append.assoc same_prefix_prefix prefixI)
    with pp have "prefix p (a # pre @ butlast p) \<or> prefix (a # pre @ butlast p) p"
      using prefix_same_cases by blast
    moreover have "length p \<le> length (a # pre @ butlast p)" using pne by simp
    ultimately have "prefix p (a # pre @ butlast p)"
      by (metis prefix_length_le prefix_order.eq_iff prefix_length_prefix order_refl pp \<open>prefix (a # pre @ butlast p) (a # pre @ p @ post)\<close>)
    then have "sublist p ((a # pre) @ butlast p)" by (auto simp: prefix_imp_sublist)
    with Cons.prems show False by simp
  qed
  from Cons.prems have "\<not> sublist p (pre @ butlast p)" by (auto simp: sublist_Cons_right)
  from Cons.IH[OF this] np show ?case by simp
qed

lemma String_replace_absent:
  "\<not> sublist p s \<Longrightarrow> String_replace s p r = s"
  by (simp add: String_replace_def indexOf_None[symmetric])

lemma delimitedE:
  assumes "delimited p"
  obtains m where "p = CHR ''<'' # m @ [CHR ''>'']" "CHR ''<'' \<notin> set m" "CHR ''>'' \<notin> set m"
proof -
  from assms obtain r where r: "p = CHR ''<'' # r" "r \<noteq> []" "last r = CHR ''>''"
    "CHR ''<'' \<notin> set r" "CHR ''>'' \<notin> set (butlast r)"
    by (auto simp: delimited_def split: list.splits)
  from r(2,3) have "r = butlast r @ [CHR ''>'']" by (metis append_butlast_last_id)
  with r show ?thesis using that[of "butlast r"] by (metis in_set_butlastD)
qed

lemma split_at_first_unique:
  "x \<notin> set xs \<Longrightarrow> x \<notin> set xs' \<Longrightarrow> xs @ x # ys = xs' @ x # ys' \<Longrightarrow> xs = xs'"
proof (induction xs arbitrary: xs')
  case Nil
  then show ?case by (cases xs') auto
next
  case (Cons a xs)
  then show ?case by (cases xs') auto
qed

lemma same_start:
  assumes "delimited p" "delimited q" "p @ b = q @ d"
  shows "p = q"
proof -
  from assms(1) obtain mp where p: "p = CHR ''<'' # mp @ [CHR ''>'']" "CHR ''>'' \<notin> set mp"
    by (auto elim: delimitedE)
  from assms(2) obtain mq where q: "q = CHR ''<'' # mq @ [CHR ''>'']" "CHR ''>'' \<notin> set mq"
    by (auto elim: delimitedE)
  from assms(3) p q have "mp @ CHR ''>'' # b = mq @ CHR ''>'' # d" by simp
  with p(2) q(2) have "mp = mq" by (rule split_at_first_unique)
  with p q show ?thesis by simp
qed

lemma inner_start:
  assumes "delimited q" "q = us @ vs" "us \<noteq> []" "vs \<noteq> []" "hd vs = CHR ''<''"
  shows False
proof -
  from assms(1) obtain r where r: "q = CHR ''<'' # r" "CHR ''<'' \<notin> set r"
    by (auto simp: delimited_def split: list.splits)
  from assms(2,3) r(1) obtain us' where "us = CHR ''<'' # us'" "r = us' @ vs"
    by (cases us) auto
  with assms(4,5) have "CHR ''<'' \<in> set r" by (metis hd_in_set in_set_conv_decomp Un_iff set_append)
  with r(2) show False by simp
qed

lemma delimited_hd: "delimited p \<Longrightarrow> hd (p @ b) = CHR ''<''"
  by (auto simp: delimited_def split: list.splits)

lemma apart:
  assumes p: "delimited p" and q: "delimited q" and ne: "p \<noteq> q"
    and eq: "a @ p @ b = c @ q @ d"
  shows "(\<exists>w. a = c @ q @ w) \<or> (\<exists>w. b = w @ q @ d)"
proof -
  from eq consider (I) us where "a = c @ us" "us @ p @ b = q @ d"
    | (II) us where "a @ us = c" "p @ b = us @ q @ d"
    using append_eq_append_conv2[of a "p @ b" c "q @ d"] by blast
  then show ?thesis
  proof cases
    case I
    from I(2) consider (a) vs where "us = q @ vs"
      | (b) vs where "us @ vs = q" "p @ b = vs @ d"
      using append_eq_append_conv2[of us "p @ b" q d] by blast
    then show ?thesis
    proof cases
      case a
      with I(1) show ?thesis by simp
    next
      case b
      show ?thesis
      proof (cases "vs = []")
        case True
        with b I(1) show ?thesis by simp
      next
        case vne: False
        have hv: "hd vs = CHR ''<''"
          using delimited_hd[OF p, of b] b(2) vne by simp
        show ?thesis
        proof (cases "us = []")
          case True
          with b have "p @ b = q @ d" by simp
          from same_start[OF p q this] ne show ?thesis by simp
        next
          case False
          from inner_start[OF q b(1)[symmetric] False vne hv] show ?thesis ..
        qed
      qed
    qed
  next
    case II
    from II(2) consider (a) vs where "p = us @ vs" "vs @ b = q @ d"
      | (b) vs where "b = vs @ q @ d"
      using append_eq_append_conv2[of p b us "q @ d"] by blast
    then show ?thesis
    proof cases
      case b
      then show ?thesis by blast
    next
      case a
      show ?thesis
      proof (cases "vs = []")
        case True
        with a show ?thesis by auto
      next
        case vne: False
        have hv: "hd vs = CHR ''<''"
          using delimited_hd[OF q, of d] a(2) vne by (metis hd_append2)
        show ?thesis
        proof (cases "us = []")
          case True
          with a have "p @ b = q @ d" by simp
          from same_start[OF p q this] ne show ?thesis by simp
        next
          case False
          from inner_start[OF p a(1) False vne hv] show ?thesis ..
        qed
      qed
    qed
  qed
qed

lemma String_replace_keeps:
  assumes p: "delimited p" and q: "delimited q" and ne: "p \<noteq> q" and sub: "sublist q s"
  shows "sublist q (String_replace s p r)"
proof (cases "indexOf s p")
  case None
  with sub show ?thesis by (simp add: String_replace_def)
next
  case (Some n)
  define a where "a = take n s"
  define b where "b = drop (n + length p) s"
  from indexOf_Some[OF Some] have s: "s = a @ p @ b" by (simp add: a_def b_def)
  from sub obtain c d where "s = c @ q @ d" by (auto simp: sublist_def)
  with s have "a @ p @ b = c @ q @ d" by simp
  from apart[OF p q ne this] have "sublist q a \<or> sublist q b" by (auto simp: sublist_def)
  then have "sublist q (a @ GetSubstitution p a b r @ b)"
    by (auto simp: sublist_append)
  with Some show ?thesis by (simp add: String_replace_def a_def b_def Let_def)
qed

lemma char_of_upper:
  assumes "97 \<le> n" "n \<le> (122::nat)"
  shows "(char_of (n - 32) :: char) \<noteq> CHR ''<''" "(char_of (n - 32) :: char) \<noteq> CHR ''>''"
proof -
  have m: "(of_char (char_of (n - 32) :: char) :: nat) = n - 32"
    using assms by (simp add: of_char_of)
  show "(char_of (n - 32) :: char) \<noteq> CHR ''<''"
  proof
    assume "(char_of (n - 32) :: char) = CHR ''<''"
    then have "(of_char (char_of (n - 32) :: char) :: nat) = of_char CHR ''<''" by simp
    with m assms show False by simp
  qed
  show "(char_of (n - 32) :: char) \<noteq> CHR ''>''"
  proof
    assume "(char_of (n - 32) :: char) = CHR ''>''"
    then have "(of_char (char_of (n - 32) :: char) :: nat) = of_char CHR ''>''" by simp
    with m assms show False by simp
  qed
qed

lemma toUpperCase_char_lt [simp]: "toUpperCase_char c = CHR ''<'' \<longleftrightarrow> c = CHR ''<''"
  using char_of_upper(1)[of "of_char c"] by (auto simp: toUpperCase_char_def Let_def)

lemma toUpperCase_char_gt [simp]: "toUpperCase_char c = CHR ''>'' \<longleftrightarrow> c = CHR ''>''"
  using char_of_upper(2)[of "of_char c"] by (auto simp: toUpperCase_char_def Let_def)

lemma toUpperCase_plain:
  "CHR ''<'' \<in> set (toUpperCase name) \<longleftrightarrow> CHR ''<'' \<in> set name"
  "CHR ''>'' \<in> set (toUpperCase name) \<longleftrightarrow> CHR ''>'' \<in> set name"
proof -
  have "CHR ''<'' = toUpperCase_char c \<longleftrightarrow> c = CHR ''<''" for c
    using toUpperCase_char_lt[of c] by metis
  then show "CHR ''<'' \<in> set (toUpperCase name) \<longleftrightarrow> CHR ''<'' \<in> set name"
    by (induction name) (auto simp: toUpperCase_def)
  have "CHR ''>'' = toUpperCase_char c \<longleftrightarrow> c = CHR ''>''" for c
    using toUpperCase_char_gt[of c] by metis
  then show "CHR ''>'' \<in> set (toUpperCase name) \<longleftrightarrow> CHR ''>'' \<in> set name"
    by (induction name) (auto simp: toUpperCase_def)
qed

lemma delimited_placeholder: "plainName name \<Longrightarrow> delimited (placeholder name)"
  by (simp add: plainName_def delimited_def placeholder_def toUpperCase_plain butlast_append)

section \<open>Reading files\<close>

lemma readFileSync_fileText:
  "\<not> isDir fs p \<Longrightarrow> existsSync fs p \<Longrightarrow> readFileSync fs p = Inr (fileText fs p)"
  by (auto simp: isDir_def existsSync_def readFileSync_def fileText_def split: option.splits node.splits)






section \<open>The loops of the build\<close>

lemma forEach_text_append:
  "forEach_text body (xs @ ys) acc =
     (case forEach_text body xs acc of Inl e \<Rightarrow> Inl e | Inr acc' \<Rightarrow> forEach_text body ys acc')"
  by (induction xs arbitrary: acc) (auto split: sum.splits)

lemma readFileSync_Inr_exists: "readFileSync fs p = Inr d \<Longrightarrow> existsSync fs p"
  by (auto simp: readFileSync_def existsSync_def split: option.splits)

lemma insertComponent_unused:
  assumes "\<not> isDir fs (componentFile name ''.html'')" and "\<not> sublist (placeholder name) t"
  shows "insertComponent fs name t = Inr t"
  using assms by (simp add: insertComponent_def Let_def readFileSync_fileText String_replace_absent)


lemma forEach_text_skip:
  assumes "\<And>acc'. forEach_text body xs acc = Inr acc' \<Longrightarrow> body x acc' = Inr acc'"
  shows "forEach_text body (xs @ x # ys) acc = forEach_text body (xs @ ys) acc"
  using assms by (simp add: forEach_text_append split: sum.splits)

lemma insertComponent_keeps:
  assumes "insertComponent fs name t = Inr t'" and "sublist q t" and "delimited q"
    and "existsSync fs (componentFile name ''.html'') \<longrightarrow>
           delimited (placeholder name) \<and> placeholder name \<noteq> q"
  shows "sublist q t'"
  using assms
  by (auto simp: insertComponent_def Let_def String_replace_keeps split: if_splits sum.splits)

lemma forEach_insertComponent_keeps:
  assumes "forEach_text (insertComponent fs) dirs t = Inr out" and "sublist q t" and "delimited q"
    and "\<forall>name\<in>set dirs. existsSync fs (componentFile name ''.html'') \<longrightarrow>
           delimited (placeholder name) \<and> placeholder name \<noteq> q"
  shows "sublist q out"
  using assms
proof (induction dirs arbitrary: t)
  case Nil
  then show ?case by simp
next
  case (Cons name dirs)
  from Cons.prems(1) obtain t' where t': "insertComponent fs name t = Inr t'"
    "forEach_text (insertComponent fs) dirs t' = Inr out"
    by (auto split: sum.splits)
  from insertComponent_keeps[OF t'(1) Cons.prems(2,3)] Cons.prems(4)
  have "sublist q t'" by simp
  from Cons.IH[OF t'(2) this Cons.prems(3)] Cons.prems(4) show ?case by simp
qed



lemma GetSubstitution_verbatim:
  "plainReplacement replaceValue \<Longrightarrow> GetSubstitution m p f replaceValue = replaceValue"
  by (induction m p f replaceValue rule: GetSubstitution.induct) auto

lemma String_replace_verbatim:
  assumes "\<not> sublist p (pre @ butlast p)" and "plainReplacement r"
  shows "String_replace (pre @ p @ post) p r = pre @ r @ post"
  using indexOf_first[OF assms(1), of post] assms(2)
  by (simp add: String_replace_def GetSubstitution_verbatim)

lemma insertComponent_verbatim:
  assumes "readFileSync fs (componentFile name ''.html'') = Inr componentHtml"
    and "plainReplacement componentHtml"
    and "\<not> sublist (placeholder name) (pre @ butlast (placeholder name))"
  shows "insertComponent fs name (pre @ placeholder name @ post) = Inr (pre @ componentHtml @ post)"
  using assms readFileSync_Inr_exists[OF assms(1)]
  by (simp add: insertComponent_def String_replace_verbatim)

lemma placeholder_marker: "placeholder name = marker (toUpperCase name)"
  by (simp add: placeholder_def marker_def)

lemma marker_eq: "marker a = marker b \<longleftrightarrow> a = b"
  by (simp add: marker_def)

lemma delimited_marker: "plainName NAME \<Longrightarrow> delimited (marker NAME)"
  by (simp add: plainName_def delimited_def marker_def butlast_append)

lemma insertComponent_same:
  assumes "lookup fs' (componentFile name ''.html'') = lookup fs (componentFile name ''.html'')"
  shows "insertComponent fs' name t = insertComponent fs name t"
  unfolding insertComponent_def Let_def existsSync_def readFileSync_def assms ..

lemma forEach_insertComponent_same:
  assumes "\<forall>name\<in>set names.
     lookup fs' (componentFile name ''.html'') = lookup fs (componentFile name ''.html'')"
  shows "forEach_text (insertComponent fs') names t = forEach_text (insertComponent fs) names t"
  using assms
proof (induction names arbitrary: t)
  case Nil
  show ?case by simp
next
  case (Cons n names)
  from Cons.prems
  have "lookup fs' (componentFile n ''.html'') = lookup fs (componentFile n ''.html'')"
    by simp
  then have h: "insertComponent fs' n t = insertComponent fs n t"
    by (rule insertComponent_same)
  from Cons.prems have "\<forall>name\<in>set names.
     lookup fs' (componentFile name ''.html'') = lookup fs (componentFile name ''.html'')"
    by simp
  from Cons.IH[OF this] show ?case
    unfolding forEach_text.simps h by (simp split: sum.splits)
qed

section \<open>buildHTML\<close>

text \<open>
  C1 (as amended). Let the component directories have ASCII names and the template and
  the HTML files of the components be well-formed UTF-8. When the loop of \<open>buildHTML\<close>
  reaches a component whose HTML file can be read, and in whose content no dollar sign
  is followed by \<open>$\<close>, \<open>&\<close>, a backtick or a single quote, the first occurrence of the
  component's placeholder in the text assembled so far is replaced by the file's content,
  and the merged HTML is what the rest of the loop makes of that text; \<open>buildHTML\<close>
  writes it to \<open>index.html\<close>. Only the first occurrence is replaced: what follows it,
  further occurrences of the same placeholder included, is handed on unchanged.
\<close>

theorem buildHTML_replaces_first_occurrence:
  assumes "readFileSync fs templateFile = Inr template" and "utf8Text template"
    and "componentDirs fs = Inr (before @ name # after)"
    and "textComponents fs ''.html'' (before @ name # after)"
    and "forEach_text (insertComponent fs) before template = Inr (pre @ placeholder name @ post)"
    and "\<not> sublist (placeholder name) (pre @ butlast (placeholder name))"
    and "readFileSync fs (componentFile name ''.html'') = Inr componentHtml"
    and "plainReplacement componentHtml"
  shows "mergedHTML fs = forEach_text (insertComponent fs) after (pre @ componentHtml @ post)
     \<and> buildHTML fs =
         (case forEach_text (insertComponent fs) after (pre @ componentHtml @ post) of
            Inl e \<Rightarrow> Threw e fs
          | Inr merged \<Rightarrow>
              attempt fs (writeFileSync fs (path_join buildDir [''index.html'']) merged))"
proof -
  have "mergedHTML fs = forEach_text (insertComponent fs) (before @ name # after) template"
    by (simp add: mergedHTML_def assms(1,3))
  also have "\<dots> = forEach_text (insertComponent fs) after (pre @ componentHtml @ post)"
    using assms(5) insertComponent_verbatim[OF assms(7,8,6), of post]
    by (simp add: forEach_text_append)
  finally have m: "mergedHTML fs =
      forEach_text (insertComponent fs) after (pre @ componentHtml @ post)" .
  then show ?thesis by (simp add: buildHTML_def)
qed

theorem buildHTML_replaces_first_occurrence_witness:
  "readFileSync first_fs templateFile = Inr ''<h1><!-- A --></h1><!-- A --><!-- B -->''
   \<and> utf8Text ''<h1><!-- A --></h1><!-- A --><!-- B -->''
   \<and> componentDirs first_fs = Inr ([''Z''] @ ''A'' # [''B''])
   \<and> textComponents first_fs ''.html'' ([''Z''] @ ''A'' # [''B''])
   \<and> forEach_text (insertComponent first_fs) [''Z''] ''<h1><!-- A --></h1><!-- A --><!-- B -->''
       = Inr (''<h1>'' @ placeholder ''A'' @ ''</h1><!-- A --><!-- B -->'')
   \<and> \<not> sublist (placeholder ''A'') (''<h1>'' @ butlast (placeholder ''A''))
   \<and> readFileSync first_fs (componentFile ''A'' ''.html'')
       = Inr (''$5 caf'' @ [CHR 0xC3, CHR 0xA9])
   \<and> plainReplacement (''$5 caf'' @ [CHR 0xC3, CHR 0xA9])
   \<and> mergedHTML first_fs
       = Inr (''<h1>$5 caf'' @ [CHR 0xC3, CHR 0xA9] @ ''</h1><!-- A -->b'')
   \<and> outputText (buildHTML first_fs) (path_join buildDir [''index.html''])
       = Inr (''<h1>$5 caf'' @ [CHR 0xC3, CHR 0xA9] @ ''</h1><!-- A -->b'')"
proof -
  have h1: "readFileSync first_fs templateFile = Inr ''<h1><!-- A --></h1><!-- A --><!-- B -->''"
    by code_simp
  have h2: "utf8Text ''<h1><!-- A --></h1><!-- A --><!-- B -->''"
    by code_simp
  have h3: "componentDirs first_fs = Inr ([''Z''] @ ''A'' # [''B''])"
    by code_simp
  have h4: "textComponents first_fs ''.html'' ([''Z''] @ ''A'' # [''B''])"
    by code_simp
  have h5: "forEach_text (insertComponent first_fs) [''Z'']
        ''<h1><!-- A --></h1><!-- A --><!-- B -->''
       = Inr (''<h1>'' @ placeholder ''A'' @ ''</h1><!-- A --><!-- B -->'')"
    by code_simp
  have h6: "\<not> sublist (placeholder ''A'') (''<h1>'' @ butlast (placeholder ''A''))"
    by code_simp
  have h7: "readFileSync first_fs (componentFile ''A'' ''.html'')
       = Inr (''$5 caf'' @ [CHR 0xC3, CHR 0xA9])"
    by code_simp
  have h8: "plainReplacement (''$5 caf'' @ [CHR 0xC3, CHR 0xA9])"
    by code_simp
  have r: "forEach_text (insertComponent first_fs) [''B'']
        (''<h1>'' @ (''$5 caf'' @ [CHR 0xC3, CHR 0xA9]) @ ''</h1><!-- A --><!-- B -->'')
       = Inr (''<h1>$5 caf'' @ [CHR 0xC3, CHR 0xA9] @ ''</h1><!-- A -->b'')"
    by code_simp
  have w: "outputText
       (attempt first_fs (writeFileSync first_fs (path_join buildDir [''index.html''])
          (''<h1>$5 caf'' @ [CHR 0xC3, CHR 0xA9] @ ''</h1><!-- A -->b'')))
       (path_join buildDir [''index.html''])
       = Inr (''<h1>$5 caf'' @ [CHR 0xC3, CHR 0xA9] @ ''</h1><!-- A -->b'')"
    by code_simp
  from buildHTML_replaces_first_occurrence [OF h1 h2 h3 h4 h5 h6 h7 h8]
  have "mergedHTML first_fs
       = Inr (''<h1>$5 caf'' @ [CHR 0xC3, CHR 0xA9] @ ''</h1><!-- A -->b'')"
    and "buildHTML first_fs =
       attempt first_fs (writeFileSync first_fs (path_join buildDir [''index.html''])
          (''<h1>$5 caf'' @ [CHR 0xC3, CHR 0xA9] @ ''</h1><!-- A -->b''))"
    unfolding r by simp_all
  with w h1 h2 h3 h4 h5 h6 h7 h8 show ?thesis by (simp only: simp_thms)
qed

text \<open>
  C1 as stated fails: with the placeholder twice in the template, the second occurrence
  is still in the merged HTML.
\<close>

theorem buildHTML_second_occurrence_counterexample:
  "readFileSync twice_fs templateFile = Inr ''<!-- A --> and <!-- A -->''
   \<and> readFileSync twice_fs (componentFile ''A'' ''.html'') = Inr ''x''
   \<and> outputText (buildHTML twice_fs) (path_join buildDir [''index.html''])
       = Inr ''x and <!-- A -->''"
  by code_simp

text \<open>
  C2. The text inserted for a placeholder is not the file's content when the content
  holds a dollar pattern: a component file that holds \<open>$&\<close> puts the placeholder back.
\<close>

theorem buildHTML_dollar_pattern_expanded:
  "readFileSync dollar_fs templateFile = Inr ''<p><!-- A --></p>''
   \<and> readFileSync dollar_fs (componentFile ''A'' ''.html'') = Inr ''$&''
   \<and> outputText (buildHTML dollar_fs) (path_join buildDir [''index.html''])
       = Inr ''<p><!-- A --></p>''"
  by code_simp

text \<open>
  C8 (as amended). Let the component directories have ASCII names and the template and
  the HTML files of the components be well-formed UTF-8. First part: when \<open>NAME\<close> and
  the names of the directories that have an HTML file hold no angle bracket, a comment
  \<open><!-- NAME -->\<close> that occurs in the template and is the placeholder of no component
  directory with an HTML file still occurs in the merged HTML, the text that
  \<open>buildHTML\<close> writes to \<open>index.html\<close>. Second part: a component directory whose
  placeholder does not occur in the text assembled when the loop reaches it (the template
  after the components listed before it) has no effect: the merged HTML, and so what
  \<open>buildHTML\<close> writes, is the merged HTML of a file system with the same template and
  the same other components, listed in the same order, in which that directory is
  omitted.
\<close>

theorem buildHTML_unmatched_placeholder_and_component:
  "(mergedHTML fs = Inr out \<and> readFileSync fs templateFile = Inr template
      \<and> utf8Text template \<and> componentDirs fs = Inr dirs \<and> textComponents fs ''.html'' dirs
      \<and> sublist (marker NAME) template \<and> plainName NAME
      \<and> (\<forall>name\<in>set dirs. existsSync fs (componentFile name ''.html'') \<longrightarrow>
             plainName name \<and> toUpperCase name \<noteq> NAME)
     \<longrightarrow> sublist (marker NAME) out
         \<and> buildHTML fs = attempt fs (writeFileSync fs (path_join buildDir [''index.html'']) out))
   \<and> (readFileSync fs templateFile = Inr template \<and> utf8Text template
      \<and> componentDirs fs = Inr (before @ unused # after)
      \<and> textComponents fs ''.html'' (before @ unused # after)
      \<and> \<not> isDir fs (componentFile unused ''.html'')
      \<and> (\<forall>t. forEach_text (insertComponent fs) before template = Inr t \<longrightarrow>
                \<not> sublist (placeholder unused) t)
      \<and> readFileSync fs' templateFile = Inr template
      \<and> componentDirs fs' = Inr (before @ after)
      \<and> (\<forall>name\<in>set (before @ after).
            lookup fs' (componentFile name ''.html'') = lookup fs (componentFile name ''.html''))
     \<longrightarrow> mergedHTML fs = mergedHTML fs'
         \<and> buildHTML fs =
             (case mergedHTML fs' of
                Inl e \<Rightarrow> Threw e fs
              | Inr merged \<Rightarrow>
                  attempt fs (writeFileSync fs (path_join buildDir [''index.html'']) merged)))"
proof (intro conjI impI)
  assume a: "mergedHTML fs = Inr out \<and> readFileSync fs templateFile = Inr template
      \<and> utf8Text template \<and> componentDirs fs = Inr dirs \<and> textComponents fs ''.html'' dirs
      \<and> sublist (marker NAME) template \<and> plainName NAME
      \<and> (\<forall>name\<in>set dirs. existsSync fs (componentFile name ''.html'') \<longrightarrow>
             plainName name \<and> toUpperCase name \<noteq> NAME)"
  then have m: "forEach_text (insertComponent fs) dirs template = Inr out"
    by (auto simp: mergedHTML_def)
  have "\<forall>name\<in>set dirs. existsSync fs (componentFile name ''.html'') \<longrightarrow>
           delimited (placeholder name) \<and> placeholder name \<noteq> marker NAME"
  proof (intro ballI impI conjI)
    fix name
    assume "name \<in> set dirs" and "existsSync fs (componentFile name ''.html'')"
    with a have pn: "plainName name" "toUpperCase name \<noteq> NAME" by auto
    show "delimited (placeholder name)" by (rule delimited_placeholder[OF pn(1)])
    show "placeholder name \<noteq> marker NAME"
      using pn(2) by (simp add: placeholder_marker marker_eq)
  qed
  from forEach_insertComponent_keeps[OF m _ _ this] a
  show "sublist (marker NAME) out" by (simp add: delimited_marker)
next
  assume "mergedHTML fs = Inr out \<and> readFileSync fs templateFile = Inr template
      \<and> utf8Text template \<and> componentDirs fs = Inr dirs \<and> textComponents fs ''.html'' dirs
      \<and> sublist (marker NAME) template \<and> plainName NAME
      \<and> (\<forall>name\<in>set dirs. existsSync fs (componentFile name ''.html'') \<longrightarrow>
             plainName name \<and> toUpperCase name \<noteq> NAME)"
  then show "buildHTML fs =
      attempt fs (writeFileSync fs (path_join buildDir [''index.html'']) out)"
    by (simp add: buildHTML_def)
next
  assume b: "readFileSync fs templateFile = Inr template \<and> utf8Text template
      \<and> componentDirs fs = Inr (before @ unused # after)
      \<and> textComponents fs ''.html'' (before @ unused # after)
      \<and> \<not> isDir fs (componentFile unused ''.html'')
      \<and> (\<forall>t. forEach_text (insertComponent fs) before template = Inr t \<longrightarrow>
                \<not> sublist (placeholder unused) t)
      \<and> readFileSync fs' templateFile = Inr template
      \<and> componentDirs fs' = Inr (before @ after)
      \<and> (\<forall>name\<in>set (before @ after).
            lookup fs' (componentFile name ''.html'') = lookup fs (componentFile name ''.html''))"
  have "forEach_text (insertComponent fs) (before @ unused # after) template =
          forEach_text (insertComponent fs) (before @ after) template"
    by (rule forEach_text_skip) (use b in \<open>simp add: insertComponent_unused\<close>)
  moreover from b have "\<forall>name\<in>set (before @ after).
      lookup fs' (componentFile name ''.html'') = lookup fs (componentFile name ''.html'')"
    by (elim conjE)
  then have "forEach_text (insertComponent fs') (before @ after) template =
          forEach_text (insertComponent fs) (before @ after) template"
    by (rule forEach_insertComponent_same)
  ultimately have "mergedHTML fs = mergedHTML fs'"
    using b by (simp add: mergedHTML_def)
  then show "mergedHTML fs = mergedHTML fs'"
    and "buildHTML fs =
      (case mergedHTML fs' of
         Inl e \<Rightarrow> Threw e fs
       | Inr merged \<Rightarrow>
           attempt fs (writeFileSync fs (path_join buildDir [''index.html'']) merged))"
    by (simp_all add: buildHTML_def)
qed

theorem buildHTML_unmatched_placeholder_and_component_witness:
  "(mergedHTML ex_fs = Inr ''<h1>hi</h1><!-- Z -->''
      \<and> readFileSync ex_fs templateFile = Inr ''<h1><!-- A --></h1><!-- Z -->''
      \<and> utf8Text ''<h1><!-- A --></h1><!-- Z -->''
      \<and> componentDirs ex_fs = Inr [''A'', ''B'', ''C'']
      \<and> textComponents ex_fs ''.html'' [''A'', ''B'', ''C'']
      \<and> sublist (marker ''Z'') ''<h1><!-- A --></h1><!-- Z -->'' \<and> plainName ''Z''
      \<and> list_all (\<lambda>name. existsSync ex_fs (componentFile name ''.html'') \<longrightarrow>
             plainName name \<and> toUpperCase name \<noteq> ''Z'') [''A'', ''B'', ''C''])
   \<and> sublist (marker ''Z'') ''<h1>hi</h1><!-- Z -->''
   \<and> outputText (buildHTML ex_fs) (path_join buildDir [''index.html''])
       = Inr ''<h1>hi</h1><!-- Z -->''
   \<and> componentDirs ex_fs = Inr ([''A'', ''B''] @ ''C'' # [])
   \<and> textComponents ex_fs ''.html'' ([''A'', ''B''] @ ''C'' # [])
   \<and> \<not> isDir ex_fs (componentFile ''C'' ''.html'')
   \<and> existsSync ex_fs (componentFile ''C'' ''.html'')
   \<and> forEach_text (insertComponent ex_fs) [''A'', ''B''] ''<h1><!-- A --></h1><!-- Z -->''
       = Inr ''<h1>hi</h1><!-- Z -->''
   \<and> \<not> sublist (placeholder ''C'') ''<h1>hi</h1><!-- Z -->''
   \<and> readFileSync ex_fs_omitted templateFile = Inr ''<h1><!-- A --></h1><!-- Z -->''
   \<and> componentDirs ex_fs_omitted = Inr ([''A'', ''B''] @ [])
   \<and> list_all (\<lambda>name. lookup ex_fs_omitted (componentFile name ''.html'')
                        = lookup ex_fs (componentFile name ''.html'')) ([''A'', ''B''] @ [])
   \<and> mergedHTML ex_fs = mergedHTML ex_fs_omitted
   \<and> mergedHTML ex_fs_omitted = Inr ''<h1>hi</h1><!-- Z -->''"
proof -
  have m: "mergedHTML ex_fs = Inr ''<h1>hi</h1><!-- Z -->''"
    by code_simp
  have t: "readFileSync ex_fs templateFile = Inr ''<h1><!-- A --></h1><!-- Z -->''"
    by code_simp
  have u: "utf8Text ''<h1><!-- A --></h1><!-- Z -->''"
    by code_simp
  have d: "componentDirs ex_fs = Inr [''A'', ''B'', ''C'']"
    by code_simp
  have c: "textComponents ex_fs ''.html'' [''A'', ''B'', ''C'']"
    by code_simp
  have s: "sublist (marker ''Z'') ''<h1><!-- A --></h1><!-- Z -->''"
    by code_simp
  have p: "plainName ''Z''"
    by code_simp
  have l: "list_all (\<lambda>name. existsSync ex_fs (componentFile name ''.html'') \<longrightarrow>
             plainName name \<and> toUpperCase name \<noteq> ''Z'') [''A'', ''B'', ''C'']"
    by code_simp
  then have l': "\<forall>name\<in>set [''A'', ''B'', ''C'']. existsSync ex_fs (componentFile name ''.html'') \<longrightarrow>
             plainName name \<and> toUpperCase name \<noteq> ''Z''"
    unfolding list_all_iff .
  have d2: "componentDirs ex_fs = Inr ([''A'', ''B''] @ ''C'' # [])"
    by code_simp
  have c2: "textComponents ex_fs ''.html'' ([''A'', ''B''] @ ''C'' # [])"
    by code_simp
  have f: "\<not> isDir ex_fs (componentFile ''C'' ''.html'')"
    by code_simp
  have x: "existsSync ex_fs (componentFile ''C'' ''.html'')"
    by code_simp
  have e: "forEach_text (insertComponent ex_fs) [''A'', ''B'']
               ''<h1><!-- A --></h1><!-- Z -->'' = Inr ''<h1>hi</h1><!-- Z -->''"
    by code_simp
  have n: "\<not> sublist (placeholder ''C'') ''<h1>hi</h1><!-- Z -->''"
    by code_simp
  have a: "\<forall>t. forEach_text (insertComponent ex_fs) [''A'', ''B'']
               ''<h1><!-- A --></h1><!-- Z -->'' = Inr t \<longrightarrow>
            \<not> sublist (placeholder ''C'') t"
    unfolding e using n by simp
  have t': "readFileSync ex_fs_omitted templateFile = Inr ''<h1><!-- A --></h1><!-- Z -->''"
    by code_simp
  have d': "componentDirs ex_fs_omitted = Inr ([''A'', ''B''] @ [])"
    by code_simp
  have k: "list_all (\<lambda>name. lookup ex_fs_omitted (componentFile name ''.html'')
                        = lookup ex_fs (componentFile name ''.html'')) ([''A'', ''B''] @ [])"
    by code_simp
  then have k': "\<forall>name\<in>set ([''A'', ''B''] @ []).
            lookup ex_fs_omitted (componentFile name ''.html'')
              = lookup ex_fs (componentFile name ''.html'')"
    unfolding list_all_iff .
  have o: "mergedHTML ex_fs_omitted = Inr ''<h1>hi</h1><!-- Z -->''"
    by code_simp
  note both = buildHTML_unmatched_placeholder_and_component
    [of ex_fs "''<h1>hi</h1><!-- Z -->''" "''<h1><!-- A --></h1><!-- Z -->''"
       "[''A'', ''B'', ''C'']" "''Z''" "[''A'', ''B'']" "''C''" "[]" ex_fs_omitted]
  have w: "outputText
      (attempt ex_fs (writeFileSync ex_fs (path_join buildDir [''index.html''])
         ''<h1>hi</h1><!-- Z -->''))
      (path_join buildDir [''index.html'']) = Inr ''<h1>hi</h1><!-- Z -->''"
    by code_simp
  have "sublist (marker ''Z'') ''<h1>hi</h1><!-- Z -->''
      \<and> buildHTML ex_fs =
          attempt ex_fs (writeFileSync ex_fs (path_join buildDir [''index.html''])
            ''<h1>hi</h1><!-- Z -->'')"
    by (rule both[THEN conjunct1, THEN mp]) (intro conjI m t u d c s p l')
  then have r1: "sublist (marker ''Z'') ''<h1>hi</h1><!-- Z -->''"
    and r1': "outputText (buildHTML ex_fs) (path_join buildDir [''index.html''])
       = Inr ''<h1>hi</h1><!-- Z -->''"
    using w by simp_all
  have "mergedHTML ex_fs = mergedHTML ex_fs_omitted
      \<and> buildHTML ex_fs =
          (case mergedHTML ex_fs_omitted of
             Inl e \<Rightarrow> Threw e ex_fs
           | Inr merged \<Rightarrow>
               attempt ex_fs (writeFileSync ex_fs (path_join buildDir [''index.html'']) merged))"
    by (rule both[THEN conjunct2, THEN mp]) (intro conjI t u d2 c2 f a t' d' k')
  then have r2: "mergedHTML ex_fs = mergedHTML ex_fs_omitted" ..
  show ?thesis
    by (intro conjI m t u d c s p l r1 r1' d2 c2 f x e n t' d' k r2 o)
qed

text \<open>
  C8 as stated fails in both parts. The placeholder of \<open>B\<close> does not occur in
  the template, yet the directory \<open>B\<close> changes the merged HTML, because the HTML of
  \<open>A\<close> brings the placeholder in. And the placeholder \<open><!-- B -->\<close>, which belongs to
  no directory, is lost when a directory whose name holds \<open>--><!--\<close> has a placeholder
  that covers it.
\<close>

theorem buildHTML_unmatched_counterexample:
  "readFileSync nested_fs templateFile = Inr ''<!-- A -->''
   \<and> \<not> sublist (placeholder ''B'') ''<!-- A -->''
   \<and> mergedHTML nested_fs = Inr ''hi''
   \<and> mergedHTML nested_fs_omitted = Inr ''<!-- B -->''
   \<and> readFileSync overlap_fs templateFile = Inr ''<!-- A --><!-- B -->''
   \<and> sublist ''<!-- B -->'' ''<!-- A --><!-- B -->''
   \<and> componentDirs overlap_fs = Inr [''A --><!-- B'']
   \<and> outputText (buildHTML overlap_fs) (path_join buildDir [''index.html'']) = Inr ''x''"
  by code_simp

section \<open>buildCSS and buildJS\<close>



section \<open>updateAssetPaths\<close>

lemma rx_match_literal:
  "rx_match (map Chr lit) s = (if prefix lit s then Some (length lit) else None)"
proof (induction lit arbitrary: s)
  case Nil
  then show ?case by simp
next
  case (Cons a lit)
  then show ?case by (cases s) auto
qed

lemma rx_match_literal_then:
  "rx_match (map Chr lit @ rx) s =
     (if prefix lit s then map_option (\<lambda>n. length lit + n) (rx_match rx (drop (length lit) s))
      else None)"
proof (induction lit arbitrary: s)
  case Nil
  then show ?case by (cases "rx_match rx s") simp_all
next
  case (Cons a lit)
  then show ?case by (cases s) (auto simp: option.map_comp comp_def)
qed

lemma rx_match_optional_literal:
  "rx_match (OptOneOf cs # map Chr lit) s =
     (case s of
        [] \<Rightarrow> if lit = [] then Some 0 else None
      | x # s' \<Rightarrow>
          if x \<in> set cs \<and> prefix lit s' then Some (Suc (length lit))
          else if prefix lit s then Some (length lit) else None)"
  by (cases s) (auto simp: rx_match_literal)

lemma replace_from_literals:
  assumes "\<And>s. rx_match rx s =
      map_option length (find (\<lambda>p. p \<noteq> [] \<and> prefix p s) literals)"
    and "CHR ''$'' \<notin> set replacement"
  shows "RegExp_replace_from rx replacement preceding s = substitute_all literals replacement s"
  using assms
proof (induction literals replacement s arbitrary: preceding rule: substitute_all.induct)
  case (1 literals replacement)
  have "find (\<lambda>p. p \<noteq> [] \<and> prefix p []) literals = None"
    by (simp add: find_None_iff)
  then have "rx_match rx [] = None"
    by (simp only: "1.prems"(1) option.map)
  then show ?case by simp
next
  case (2 literals replacement c s)
  note rx = "2.prems"(1) and plain = "2.prems"(2)
  show ?case
  proof (cases "find (\<lambda>p. p \<noteq> [] \<and> prefix p (c # s)) literals")
    case None
    with "2.IH"(1)[OF None rx plain] show ?thesis by (simp add: rx)
  next
    case (Some p)
    then have "p \<noteq> []" by (auto simp: find_Some_iff)
    with "2.IH"(2)[OF Some rx plain] Some show ?thesis
      by (simp add: rx GetSubstitution_plain plain del: prefix_code)
  qed
qed

lemma substitute_all_absent:
  "\<forall>p\<in>set literals. \<not> sublist p s \<Longrightarrow> substitute_all literals replacement s = s"
proof (induction literals replacement s rule: substitute_all.induct)
  case (1 literals replacement)
  then show ?case by simp
next
  case (2 literals replacement c s)
  have none: "find (\<lambda>p. p \<noteq> [] \<and> prefix p (c # s)) literals = None"
    using "2.prems" by (auto simp: find_None_iff dest: prefix_imp_sublist simp del: prefix_code)
  have "\<forall>p\<in>set literals. \<not> sublist p s"
    using "2.prems" by (auto simp: sublist_Cons_right)
  with "2.IH"(1)[OF none] none show ?case by simp
qed

lemma rx_src: "rx_match rx_src_images s =
   map_option length (find (\<lambda>p. p \<noteq> [] \<and> prefix p s) html_src_literals)"
  by (simp only: rx_src_images_def rx_match_literal) (simp add: html_src_literals_def del: prefix_code)

lemma rx_href: "rx_match rx_href_images s =
   map_option length (find (\<lambda>p. p \<noteq> [] \<and> prefix p s) html_href_literals)"
  by (simp only: rx_href_images_def rx_match_literal) (simp add: html_href_literals_def del: prefix_code)

lemma prefix_append_drop:
  "prefix (a @ b) s \<longleftrightarrow> prefix a s \<and> prefix b (drop (length a) s)"
proof (induction a arbitrary: s)
  case Nil
  then show ?case by simp
next
  case (Cons x a)
  then show ?case by (cases s) simp_all
qed

lemma rx_match_optional_quote:
  assumes "b \<noteq> []" and "hd b \<noteq> q1" and "hd b \<noteq> q2" and "q1 \<noteq> q2"
  shows "rx_match (map Chr a @ [OptOneOf [q1, q2]] @ map Chr b) s =
     map_option length
       (find (\<lambda>p. p \<noteq> [] \<and> prefix p s) [a @ [q1] @ b, a @ [q2] @ b, a @ b])"
proof (cases "prefix a s")
  case False
  then show ?thesis
    by (simp add: rx_match_literal_then prefix_append_drop del: prefix_code)
next
  case True
  obtain c b' where b: "b = c # b'" using assms(1) by (cases b) auto
  with assms have c: "c \<noteq> q1" "c \<noteq> q2" by auto
  have l: "rx_match (map Chr a @ [OptOneOf [q1, q2]] @ map Chr b) s =
      map_option (\<lambda>n. length a + n)
        (rx_match (OptOneOf [q1, q2] # map Chr b) (drop (length a) s))"
    using True by (simp only: rx_match_literal_then append_Cons append_Nil if_True)
  show ?thesis
  proof (cases "drop (length a) s")
    case Nil
    have "\<not> prefix b (drop (length a) s)" using Nil assms(1) by simp
    moreover have "\<not> prefix ([q1] @ b) (drop (length a) s)" using Nil by simp
    moreover have "\<not> prefix ([q2] @ b) (drop (length a) s)" using Nil by simp
    ultimately have "find (\<lambda>p. p \<noteq> [] \<and> prefix p s) [a @ [q1] @ b, a @ [q2] @ b, a @ b] = None"
      by (simp add: prefix_append_drop del: prefix_code)
    moreover have "rx_match (OptOneOf [q1, q2] # map Chr b) (drop (length a) s) = None"
      using Nil assms(1) by (simp only: rx_match_optional_literal list.case if_False)
    ultimately show ?thesis by (simp only: l option.map)
  next
    case (Cons x s')
    have p1: "prefix (a @ [q1] @ b) s \<longleftrightarrow> x = q1 \<and> prefix b s'"
      using True Cons by (auto simp: prefix_append_drop[of a])
    have p2: "prefix (a @ [q2] @ b) s \<longleftrightarrow> x = q2 \<and> prefix b s'"
      using True Cons by (auto simp: prefix_append_drop[of a])
    have p3: "prefix (a @ b) s \<longleftrightarrow> x = c \<and> prefix b' s'"
      using True Cons b by (auto simp: prefix_append_drop[of a])
    have pb: "prefix b (x # s') \<longleftrightarrow> x = c \<and> prefix b' s'"
      using b by auto
    have r: "rx_match (OptOneOf [q1, q2] # map Chr b) (drop (length a) s) =
        (if (x = q1 \<or> x = q2) \<and> prefix b s' then Some (Suc (length b))
         else if x = c \<and> prefix b' s' then Some (length b) else None)"
      unfolding Cons rx_match_optional_literal list.case pb by simp
    have ne: "a @ [q1] @ b \<noteq> []" "a @ [q2] @ b \<noteq> []" "a @ b \<noteq> []"
      using assms(1) by simp_all
    have f: "find (\<lambda>p. p \<noteq> [] \<and> prefix p s) [a @ [q1] @ b, a @ [q2] @ b, a @ b] =
       (if x = q1 \<and> prefix b s' then Some (a @ [q1] @ b)
        else if x = q2 \<and> prefix b s' then Some (a @ [q2] @ b)
        else if x = c \<and> prefix b' s' then Some (a @ b) else None)"
      unfolding find.simps p1 p2 p3 using ne by simp
    show ?thesis
      unfolding l r f using c by auto
  qed
qed

lemma rx_url_images:
  "rx_match rx_url_images s =
     map_option length (find (\<lambda>p. p \<noteq> [] \<and> prefix p s) (css_url_literals ''images''))"
proof -
  have "rx_match (map Chr ''url('' @ [OptOneOf [squote, dquote]] @ map Chr ''core/assets/images/'') s =
     map_option length
       (find (\<lambda>p. p \<noteq> [] \<and> prefix p s)
          [''url('' @ [squote] @ ''core/assets/images/'',
           ''url('' @ [dquote] @ ''core/assets/images/'', ''url('' @ ''core/assets/images/''])"
    by (rule rx_match_optional_quote) (simp_all add: squote_def dquote_def)
  then show ?thesis
    by (simp add: rx_url_images_def css_url_literals_def)
qed

lemma rx_url_fonts:
  "rx_match rx_url_fonts s =
     map_option length (find (\<lambda>p. p \<noteq> [] \<and> prefix p s) (css_url_literals ''fonts''))"
proof -
  have "rx_match (map Chr ''url('' @ [OptOneOf [squote, dquote]] @ map Chr ''core/assets/fonts/'') s =
     map_option length
       (find (\<lambda>p. p \<noteq> [] \<and> prefix p s)
          [''url('' @ [squote] @ ''core/assets/fonts/'',
           ''url('' @ [dquote] @ ''core/assets/fonts/'', ''url('' @ ''core/assets/fonts/''])"
    by (rule rx_match_optional_quote) (simp_all add: squote_def dquote_def)
  then show ?thesis
    by (simp add: rx_url_fonts_def css_url_literals_def)
qed

lemma rewriteHTML_literals:
  "rewriteHTML t =
     substitute_all html_href_literals (''href='' @ [dquote] @ ''build/assets/images/'')
       (substitute_all html_src_literals (''src='' @ [dquote] @ ''build/assets/images/'') t)"
  unfolding rewriteHTML_def RegExp_replace_g_def
  by (subst replace_from_literals [OF rx_src], simp add: dquote_def)
     (subst replace_from_literals [OF rx_href], simp_all add: dquote_def)

lemma rewriteCSS_literals:
  "rewriteCSS t =
     substitute_all (css_url_literals ''fonts'') (''url('' @ [squote] @ ''build/assets/fonts/'')
       (substitute_all (css_url_literals ''images'')
          (''url('' @ [squote] @ ''build/assets/images/'') t)"
  unfolding rewriteCSS_def RegExp_replace_g_def
  by (subst replace_from_literals [OF rx_url_images], simp add: squote_def)
     (subst replace_from_literals [OF rx_url_fonts], simp_all add: squote_def)

section \<open>File system operations\<close>

lemma lookup_append:
  "lookup fs (p @ q) = (case lookup fs p of None \<Rightarrow> None | Some n \<Rightarrow> lookup n q)"
  by (induction fs p rule: lookup.induct) (auto split: option.splits)

lemma map_of_snoc [simp]:
  "([x \<mapsto> v] ++ m) y = (if m y = None \<and> y = x then Some v else m y)"
  by (auto simp: map_add_def split: option.splits)

lemma writeFileSync_frame:
  "writeFileSync fs q t = Inr fs' \<Longrightarrow> \<not> prefix p q \<Longrightarrow> lookup fs' p = lookup fs p"
proof (induction fs q t arbitrary: fs' p rule: writeFileSync.induct)
  case (1 d t)
  then show ?case by (cases p) auto
next
  case (4 es x q t)
  from "4.prems"(2) obtain y p' where p: "p = y # p'" by (cases p) auto
  show ?case
  proof (cases "map_of es x")
    case None
    with "4.prems" p show ?thesis
      by (cases p') (auto split: if_splits)
  next
    case (Some c)
    with "4.prems"(1) obtain c' where c': "writeFileSync c q t = Inr c'"
      "fs' = Dir (AList.update x c' es)"
      by (auto split: sum.splits)
    show ?thesis
    proof (cases "y = x")
      case True
      with "4.prems"(2) p have "\<not> prefix p' q" by simp
      from "4.IH"[OF Some c'(1) this] True p c'(2) Some show ?thesis
        by (simp add: update_conv')
    next
      case False
      with p c'(2) show ?thesis by (simp add: update_conv')
    qed
  qed
qed simp_all

lemma writeFileSync_written:
  "writeFileSync fs q t = Inr fs' \<Longrightarrow> lookup fs' q = Some (File t)"
proof (induction fs q t arbitrary: fs' rule: writeFileSync.induct)
  case (4 es x q t)
  show ?case
  proof (cases "map_of es x")
    case None
    with "4.prems" show ?thesis by (auto split: if_splits)
  next
    case (Some c)
    with "4.prems"(1) obtain c' where c': "writeFileSync c q t = Inr c'"
      "fs' = Dir (AList.update x c' es)"
      by (auto split: sum.splits)
    from "4.IH"[OF Some c'(1)] c'(2) show ?thesis by (simp add: update_conv')
  qed
qed auto

lemma mkdirSync_frame:
  "mkdirSync fs q = Inr fs' \<Longrightarrow> \<not> prefix p q \<Longrightarrow> lookup fs' p = lookup fs p"
proof (induction fs q arbitrary: fs' p rule: mkdirSync.induct)
  case (4 es x q)
  from "4.prems"(2) obtain y p' where p: "p = y # p'" by (cases p) auto
  show ?case
  proof (cases "map_of es x")
    case None
    with "4.prems"(1) obtain c' where c': "mkdirSync (Dir []) q = Inr c'"
      "fs' = Dir (es @ [(x, c')])"
      by (auto split: sum.splits)
    show ?thesis
    proof (cases "y = x")
      case True
      with "4.prems"(2) p have "\<not> prefix p' q" by simp
      from "4.IH"(1)[OF None c'(1) this] have "lookup c' p' = None"
        using \<open>\<not> prefix p' q\<close> by (cases p') auto
      with True p c'(2) None show ?thesis by simp
    next
      case False
      with p c'(2) show ?thesis by simp
    qed
  next
    case (Some c)
    with "4.prems"(1) obtain c' where c': "mkdirSync c q = Inr c'"
      "fs' = Dir (AList.update x c' es)"
      by (auto split: sum.splits)
    show ?thesis
    proof (cases "y = x")
      case True
      with "4.prems"(2) p have "\<not> prefix p' q" by simp
      from "4.IH"(2)[OF Some c'(1) this] True p c'(2) Some show ?thesis
        by (simp add: update_conv')
    next
      case False
      with p c'(2) show ?thesis by (simp add: update_conv')
    qed
  qed
qed simp_all

lemma copyFileSync_frame:
  "copyFileSync fs src dest = Inr fs' \<Longrightarrow> \<not> prefix p dest \<Longrightarrow> lookup fs' p = lookup fs p"
  by (auto simp: copyFileSync_def split: sum.splits dest: writeFileSync_frame)

lemma copyFileSync_copied:
  "copyFileSync fs src dest = Inr fs' \<Longrightarrow>
   \<exists>d. lookup fs src = Some (File d) \<and> lookup fs' dest = Some (File d)"
  by (auto simp: copyFileSync_def readFileSync_def split: sum.splits option.splits node.splits
      dest: writeFileSync_written)

lemma writeFileSync_isDir:
  "writeFileSync fs q t = Inr fs' \<Longrightarrow> isDir fs p \<Longrightarrow> isDir fs' p"
proof (induction fs q t arbitrary: fs' p rule: writeFileSync.induct)
  case (1 d t)
  then show ?case by (cases p) (auto simp: isDir_def)
next
  case (4 es x q t)
  show ?case
  proof (cases p)
    case Nil
    with "4.prems" show ?thesis
      by (auto simp: isDir_def split: option.splits sum.splits if_splits)
  next
    case (Cons y p')
    show ?thesis
    proof (cases "map_of es x")
      case None
      with "4.prems" Cons show ?thesis
        by (auto simp: isDir_def split: if_splits option.splits)
    next
      case (Some c)
      with "4.prems"(1) obtain c' where c': "writeFileSync c q t = Inr c'"
        "fs' = Dir (AList.update x c' es)"
        by (auto split: sum.splits)
      show ?thesis
      proof (cases "y = x")
        case True
        with "4.prems"(2) Cons Some have "isDir c p'" by (simp add: isDir_def)
        from "4.IH"[OF Some c'(1) this] True Cons c'(2) show ?thesis
          by (simp add: isDir_def update_conv')
      next
        case False
        with "4.prems"(2) Cons c'(2) show ?thesis by (simp add: isDir_def update_conv')
      qed
    qed
  qed
qed simp_all

lemma mkdirSync_isDir_kept:
  "mkdirSync fs q = Inr fs' \<Longrightarrow> isDir fs p \<Longrightarrow> isDir fs' p"
proof (induction fs q arbitrary: fs' p rule: mkdirSync.induct)
  case (4 es x q)
  show ?case
  proof (cases p)
    case Nil
    with "4.prems" show ?thesis
      by (auto simp: isDir_def split: option.splits sum.splits)
  next
    case (Cons y p')
    show ?thesis
    proof (cases "map_of es x")
      case None
      with "4.prems" Cons show ?thesis
        by (auto simp: isDir_def split: if_splits option.splits sum.splits)
    next
      case (Some c)
      with "4.prems"(1) obtain c' where c': "mkdirSync c q = Inr c'"
        "fs' = Dir (AList.update x c' es)"
        by (auto split: sum.splits)
      show ?thesis
      proof (cases "y = x")
        case True
        with "4.prems"(2) Cons Some have "isDir c p'" by (simp add: isDir_def)
        from "4.IH"(2)[OF Some c'(1) this] True Cons c'(2) show ?thesis
          by (simp add: isDir_def update_conv')
      next
        case False
        with "4.prems"(2) Cons c'(2) show ?thesis by (simp add: isDir_def update_conv')
      qed
    qed
  qed
qed simp_all

lemma mkdirSync_made:
  "mkdirSync fs q = Inr fs' \<Longrightarrow> isDir fs' q"
proof (induction fs q arbitrary: fs' rule: mkdirSync.induct)
  case (4 es x q)
  show ?case
  proof (cases "map_of es x")
    case None
    with "4.prems"(1) obtain c' where c': "mkdirSync (Dir []) q = Inr c'"
      "fs' = Dir (es @ [(x, c')])"
      by (auto split: sum.splits)
    from "4.IH"(1)[OF None c'(1)] c'(2) None show ?thesis
      by (simp add: isDir_def)
  next
    case (Some c)
    with "4.prems"(1) obtain c' where c': "mkdirSync c q = Inr c'"
      "fs' = Dir (AList.update x c' es)"
      by (auto split: sum.splits)
    from "4.IH"(2)[OF Some c'(1)] c'(2) show ?thesis
      by (simp add: isDir_def update_conv')
  qed
qed (auto simp: isDir_def)

lemma mkdirSync_ok:
  "\<forall>r. prefix r q \<longrightarrow> \<not> isFile fs r \<Longrightarrow> \<exists>fs'. mkdirSync fs q = Inr fs'"
proof (induction fs q rule: mkdirSync.induct)
  case (2 d)
  then show ?case by (auto simp: isFile_def)
next
  case (3 d x p)
  from "3.prems" have "prefix [] (x # p) \<longrightarrow> \<not> isFile (File d) []" by blast
  then show ?case by (simp add: isFile_def)
next
  case (4 es x q)
  show ?case
  proof (cases "map_of es x")
    case None
    have "\<forall>r. prefix r q \<longrightarrow> \<not> isFile (Dir []) r"
    proof (intro allI impI)
      fix r assume "prefix r q"
      show "\<not> isFile (Dir []) r" by (cases r) (simp_all add: isFile_def)
    qed
    from "4.IH"(1)[OF None this] None show ?thesis by auto
  next
    case (Some c)
    have "\<forall>r. prefix r q \<longrightarrow> \<not> isFile c r"
    proof (intro allI impI)
      fix r assume "prefix r q"
      then have "prefix (x # r) (x # q)" by simp
      with "4.prems" have "\<not> isFile (Dir es) (x # r)" by blast
      with Some show "\<not> isFile c r" by (simp add: isFile_def)
    qed
    from "4.IH"(2)[OF Some this] Some show ?thesis by auto
  qed
qed simp

lemma writeFileSync_ok:
  "isDir fs dir \<Longrightarrow> \<not> isDir fs (dir @ [name]) \<Longrightarrow> \<exists>fs'. writeFileSync fs (dir @ [name]) t = Inr fs'"
proof (induction fs dir arbitrary: rule: lookup.induct)
  case (1 n)
  then obtain es where n: "n = Dir es" by (cases n) (auto simp: isDir_def)
  show ?case
  proof (cases "map_of es name")
    case None
    with n show ?thesis by simp
  next
    case (Some c)
    with "1.prems"(2) n obtain d where "c = File d"
      by (cases c) (auto simp: isDir_def)
    with Some n show ?thesis by simp
  qed
next
  case (2 d x p)
  then show ?case by (simp add: isDir_def)
next
  case (3 es x p)
  from "3.prems"(1) obtain c where c: "map_of es x = Some c" "isDir c p"
    by (auto simp: isDir_def split: option.splits)
  with "3.prems"(2) have "\<not> isDir c (p @ [name])" by (simp add: isDir_def)
  from "3.IH"[OF c(1) c(2) this] c(1) show ?case by auto
qed

section \<open>copyAssets\<close>

lemma heads_apart:
  "p \<noteq> [] \<Longrightarrow> q \<noteq> [] \<Longrightarrow> hd p \<noteq> hd q \<Longrightarrow> \<not> prefix (p @ a) (q @ b)"
  by (cases p; cases q) auto

lemma isDir_lookup: "lookup fs' p = lookup fs p \<Longrightarrow> isDir fs' p = isDir fs p"
  by (simp add: isDir_def)

lemma copyEntry_frame:
  "copyEntry src dst n fs = Inr fs' \<Longrightarrow> \<not> prefix p (dst @ [n]) \<Longrightarrow> lookup fs' p = lookup fs p"
  by (auto simp: copyEntry_def path_join_def dest: copyFileSync_frame)

lemma copyEntry_copied:
  "copyEntry src dst n fs = Inr fs' \<Longrightarrow>
   \<exists>d. lookup fs (src @ [n]) = Some (File d) \<and> lookup fs' (dst @ [n]) = Some (File d)"
  by (auto simp: copyEntry_def path_join_def dest: copyFileSync_copied)

lemma copyEntry_isDir:
  "copyEntry src dst n fs = Inr fs' \<Longrightarrow> isDir fs p \<Longrightarrow> isDir fs' p"
  by (auto simp: copyEntry_def copyFileSync_def split: sum.splits dest: writeFileSync_isDir)

lemma forEach_copy_frame:
  "forEach_fs (copyEntry src dst) names fs = Done fs' \<Longrightarrow>
   \<forall>n\<in>set names. \<not> prefix p (dst @ [n]) \<Longrightarrow> lookup fs' p = lookup fs p"
proof (induction names arbitrary: fs)
  case Nil
  then show ?case by simp
next
  case (Cons a names)
  from Cons.prems(1) obtain fs1 where s: "copyEntry src dst a fs = Inr fs1"
    "forEach_fs (copyEntry src dst) names fs1 = Done fs'"
    by (auto split: sum.splits)
  from Cons.IH[OF s(2)] Cons.prems(2) copyEntry_frame[OF s(1), of p] show ?case by simp
qed

lemma forEach_copy_isDir:
  "forEach_fs (copyEntry src dst) names fs = Done fs' \<Longrightarrow> isDir fs p \<Longrightarrow> isDir fs' p"
proof (induction names arbitrary: fs)
  case Nil
  then show ?case by simp
next
  case (Cons a names)
  from Cons.prems(1) obtain fs1 where s: "copyEntry src dst a fs = Inr fs1"
    "forEach_fs (copyEntry src dst) names fs1 = Done fs'"
    by (auto split: sum.splits)
  from Cons.IH[OF s(2)] copyEntry_isDir[OF s(1) Cons.prems(2)] show ?case by simp
qed

lemma forEach_copy_copied:
  assumes "forEach_fs (copyEntry src dst) names fs = Done fs'"
    and "src \<noteq> []" "dst \<noteq> []" "hd src \<noteq> hd dst"
    and "n \<in> set names"
  shows "\<exists>d. lookup fs (src @ [n]) = Some (File d) \<and> lookup fs' (dst @ [n]) = Some (File d)"
  using assms(1,5)
proof (induction names arbitrary: fs)
  case Nil
  then show ?case by simp
next
  case (Cons a names)
  from Cons.prems(1) obtain fs1 where s: "copyEntry src dst a fs = Inr fs1"
    "forEach_fs (copyEntry src dst) names fs1 = Done fs'"
    by (auto split: sum.splits)
  show ?case
  proof (cases "n \<in> set names")
    case True
    from Cons.IH[OF s(2) True] obtain d where
      d: "lookup fs1 (src @ [n]) = Some (File d)" "lookup fs' (dst @ [n]) = Some (File d)"
      by blast
    have "lookup fs1 (src @ [n]) = lookup fs (src @ [n])"
      by (rule copyEntry_frame[OF s(1)]) (rule heads_apart[OF assms(2,3,4)])
    with d show ?thesis by simp
  next
    case False
    with Cons.prems(2) have na: "n = a" by simp
    from copyEntry_copied[OF s(1)] obtain d where
      d: "lookup fs (src @ [a]) = Some (File d)" "lookup fs1 (dst @ [a]) = Some (File d)"
      by blast
    have "lookup fs' (dst @ [a]) = lookup fs1 (dst @ [a])"
      by (rule forEach_copy_frame[OF s(2)]) (use False na in auto)
    with d na show ?thesis by simp
  qed
qed

lemma forEach_copy_throws:
  assumes "\<exists>n\<in>set names. isDir fs (src @ [n])"
    and "src \<noteq> []" "dst \<noteq> []" "hd src \<noteq> hd dst"
  shows "\<exists>e fs'. forEach_fs (copyEntry src dst) names fs = Threw e fs'"
  using assms(1)
proof (induction names arbitrary: fs)
  case Nil
  then show ?case by simp
next
  case (Cons a names)
  show ?case
  proof (cases "copyEntry src dst a fs")
    case (Inl e)
    then show ?thesis by simp
  next
    case (Inr fs1)
    from copyEntry_copied[OF Inr] have "\<not> isDir fs (src @ [a])"
      by (auto simp: isDir_def)
    with Cons.prems obtain n where n: "n \<in> set names" "isDir fs (src @ [n])" by auto
    have "lookup fs1 (src @ [n]) = lookup fs (src @ [n])"
      by (rule copyEntry_frame[OF Inr]) (rule heads_apart[OF assms(2,3,4)])
    then have "isDir fs1 (src @ [n]) = isDir fs (src @ [n])" by (rule isDir_lookup)
    with n have "\<exists>n\<in>set names. isDir fs1 (src @ [n])" by blast
    from Cons.IH[OF this] Inr show ?thesis by simp
  qed
qed

lemma forEach_copy_ok:
  assumes "\<forall>n\<in>set names. isFile fs (src @ [n])" and "isDir fs dst"
    and "\<forall>n\<in>set names. \<not> isDir fs (dst @ [n])"
    and "src \<noteq> []" "dst \<noteq> []" "hd src \<noteq> hd dst"
  shows "\<exists>fs'. forEach_fs (copyEntry src dst) names fs = Done fs'"
  using assms(1,2,3)
proof (induction names arbitrary: fs)
  case Nil
  then show ?case by simp
next
  case (Cons a names)
  from Cons.prems(1) obtain d where d: "lookup fs (src @ [a]) = Some (File d)"
    by (auto simp: isFile_def split: option.splits node.splits)
  from writeFileSync_ok[OF Cons.prems(2), of a d] Cons.prems(3)
  obtain fs1 where w: "writeFileSync fs (dst @ [a]) d = Inr fs1" by auto
  with d have c: "copyEntry src dst a fs = Inr fs1"
    by (simp add: copyEntry_def copyFileSync_def readFileSync_def path_join_def)
  have 1: "\<forall>n\<in>set names. isFile fs1 (src @ [n])"
  proof
    fix n assume "n \<in> set names"
    have "lookup fs1 (src @ [n]) = lookup fs (src @ [n])"
      by (rule copyEntry_frame[OF c]) (rule heads_apart[OF assms(4,5,6)])
    with Cons.prems(1) \<open>n \<in> set names\<close> show "isFile fs1 (src @ [n])"
      by (simp add: isFile_def)
  qed
  have 2: "isDir fs1 dst" by (rule copyEntry_isDir[OF c Cons.prems(2)])
  have 3: "\<forall>n\<in>set names. \<not> isDir fs1 (dst @ [n])"
  proof
    fix n assume n: "n \<in> set names"
    show "\<not> isDir fs1 (dst @ [n])"
    proof (cases "n = a")
      case True
      with writeFileSync_written[OF w] show ?thesis by (simp add: isDir_def)
    next
      case False
      then have "lookup fs1 (dst @ [n]) = lookup fs (dst @ [n])"
        by (intro copyEntry_frame[OF c]) simp
      with Cons.prems(3) n show ?thesis by (simp add: isDir_def)
    qed
  qed
  from Cons.IH[OF 1 2 3] c show ?case by simp
qed

lemma ensureDir_frame:
  "ensureDir fs d = Done fs' \<Longrightarrow> \<not> prefix p d \<Longrightarrow> lookup fs' p = lookup fs p"
  by (auto simp: ensureDir_def attempt_def split: if_splits sum.splits dest: mkdirSync_frame)

lemma ensureDir_isDir_kept:
  "ensureDir fs d = Done fs' \<Longrightarrow> isDir fs p \<Longrightarrow> isDir fs' p"
  by (auto simp: ensureDir_def attempt_def split: if_splits sum.splits dest: mkdirSync_isDir_kept)

lemma ensureDir_ok:
  assumes "\<forall>r. prefix r d \<longrightarrow> \<not> isFile fs r"
  shows "\<exists>fs'. ensureDir fs d = Done fs' \<and> isDir fs' d"
proof (cases "existsSync fs d")
  case True
  from assms have "\<not> isFile fs d" by simp
  with True have "isDir fs d"
    by (auto simp: existsSync_def isFile_def isDir_def split: node.splits)
  with True show ?thesis by (simp add: ensureDir_def)
next
  case False
  from mkdirSync_ok[OF assms] obtain fs' where "mkdirSync fs d = Inr fs'" by blast
  with False mkdirSync_made[OF this] show ?thesis by (simp add: ensureDir_def attempt_def)
qed

lemma entryNames_lookup: "lookup fs' p = lookup fs p \<Longrightarrow> entryNames fs' p = entryNames fs p"
  by (simp add: entryNames_def)

lemma readdirSync_entryNames:
  "readdirSync fs p = Inr entries \<Longrightarrow> map fst entries = entryNames fs p"
  by (auto simp: readdirSync_def entryNames_def split: option.splits node.splits)

lemma entryNames_exists: "n \<in> set (entryNames fs p) \<Longrightarrow> existsSync fs p \<and> isDir fs p"
  by (cases "lookup fs p") (auto simp: entryNames_def existsSync_def isDir_def split: node.splits)

lemma isDir_readdirSync: "isDir fs p \<Longrightarrow> \<exists>entries. readdirSync fs p = Inr entries"
  by (auto simp: readdirSync_def isDir_def split: option.splits node.splits)

lemma isDir_prefix: "isDir fs p \<Longrightarrow> prefix r p \<Longrightarrow> isDir fs r"
proof -
  assume d: "isDir fs p" and "prefix r p"
  then obtain q where p: "p = r @ q" by (auto simp: prefix_def)
  show "isDir fs r"
  proof (cases q)
    case Nil
    with d p show ?thesis by simp
  next
    case (Cons x q')
    from d p obtain n where n: "lookup fs r = Some n" "lookup n q \<noteq> None"
      by (auto simp: isDir_def lookup_append split: option.splits)
    with Cons show ?thesis by (cases n) (auto simp: isDir_def)
  qed
qed

lemma isDir_not_isFile: "isDir fs p \<Longrightarrow> \<not> isFile fs p"
  by (auto simp: isDir_def isFile_def split: option.splits node.splits)

lemma no_file_above:
  assumes "isDir fs dir" and "\<not> isFile fs (dir @ [x])"
  shows "\<forall>r. prefix r (dir @ [x]) \<longrightarrow> \<not> isFile fs r"
proof (intro allI impI)
  fix r assume "prefix r (dir @ [x])"
  then have "r = dir @ [x] \<or> prefix r dir" by (auto simp: prefix_snoc)
  with assms show "\<not> isFile fs r"
    by (auto dest: isDir_prefix isDir_not_isFile)
qed

lemma copyDir_Done:
  assumes "copyDir src dst fs = Done fs'" and "src \<noteq> []" "dst \<noteq> []" "hd src \<noteq> hd dst"
  shows "(\<not> existsSync fs src \<and> fs' = fs \<and> entryNames fs src = []) \<or>
    (\<exists>fs1. ensureDir fs dst = Done fs1 \<and>
       forEach_fs (copyEntry src dst) (entryNames fs src) fs1 = Done fs')"
proof (cases "existsSync fs src")
  case False
  with assms(1) show ?thesis
    by (auto simp: copyDir_def entryNames_def existsSync_def)
next
  case True
  with assms(1) obtain fs1 entries where s: "ensureDir fs dst = Done fs1"
    "readdirSync fs1 src = Inr entries"
    "forEach_fs (copyEntry src dst) (map fst entries) fs1 = Done fs'"
    by (cases "ensureDir fs dst") (auto simp: copyDir_def split: sum.splits)
  have "lookup fs1 src = lookup fs src"
    by (rule ensureDir_frame[OF s(1)]) (use heads_apart[OF assms(2,3,4), of "[]" "[]"] in simp)
  with readdirSync_entryNames[OF s(2)] have "map fst entries = entryNames fs src"
    by (simp add: entryNames_def)
  with s show ?thesis by auto
qed

lemma copyDir_frame:
  assumes "copyDir src dst fs = Done fs'" and "src \<noteq> []" "dst \<noteq> []" "hd src \<noteq> hd dst"
    and "\<not> prefix p dst" and "\<forall>n\<in>set (entryNames fs src). p \<noteq> dst @ [n]"
  shows "lookup fs' p = lookup fs p"
  using copyDir_Done[OF assms(1,2,3,4)]
proof (elim disjE exE conjE)
  fix fs1 assume s: "ensureDir fs dst = Done fs1"
    "forEach_fs (copyEntry src dst) (entryNames fs src) fs1 = Done fs'"
  have "\<forall>n\<in>set (entryNames fs src). \<not> prefix p (dst @ [n])"
    using assms(5,6) by (auto simp: prefix_snoc)
  from forEach_copy_frame[OF s(2) this] ensureDir_frame[OF s(1) assms(5)]
  show ?thesis by simp
qed simp

lemma copyDir_isDir_kept:
  assumes "copyDir src dst fs = Done fs'" and "src \<noteq> []" "dst \<noteq> []" "hd src \<noteq> hd dst"
    and "isDir fs p"
  shows "isDir fs' p"
  using copyDir_Done[OF assms(1,2,3,4)] assms(5)
  by (auto dest: ensureDir_isDir_kept forEach_copy_isDir)

lemma copyDir_copied:
  assumes "copyDir src dst fs = Done fs'" and "src \<noteq> []" "dst \<noteq> []" "hd src \<noteq> hd dst"
    and "n \<in> set (entryNames fs src)"
  shows "\<exists>d. lookup fs (src @ [n]) = Some (File d) \<and> lookup fs' (dst @ [n]) = Some (File d)"
  using copyDir_Done[OF assms(1,2,3,4)]
proof (elim disjE exE conjE)
  fix fs1 assume s: "ensureDir fs dst = Done fs1"
    "forEach_fs (copyEntry src dst) (entryNames fs src) fs1 = Done fs'"
  have "lookup fs1 (src @ [n]) = lookup fs (src @ [n])"
    by (rule ensureDir_frame[OF s(1)]) (use heads_apart[OF assms(2,3,4), of "[n]" "[]"] in simp)
  with forEach_copy_copied[OF s(2) assms(2,3,4,5)] show ?thesis by simp
next
  assume "entryNames fs src = []"
  with assms(5) show ?thesis by simp
qed

lemma copyDir_throws:
  assumes "n \<in> set (entryNames fs src)" and "isDir fs (src @ [n])"
    and "src \<noteq> []" "dst \<noteq> []" "hd src \<noteq> hd dst"
  shows "\<exists>e fs'. copyDir src dst fs = Threw e fs'"
proof (cases "ensureDir fs dst")
  case (Threw e fs1)
  with entryNames_exists[OF assms(1)] show ?thesis by (simp add: copyDir_def)
next
  case (Done fs1)
  have l: "lookup fs1 src = lookup fs src"
    by (rule ensureDir_frame[OF Done]) (use heads_apart[OF assms(3,4,5), of "[]" "[]"] in simp)
  have "lookup fs1 (src @ [n]) = lookup fs (src @ [n])"
    by (rule ensureDir_frame[OF Done]) (use heads_apart[OF assms(3,4,5), of "[n]" "[]"] in simp)
  with assms(2) have d: "isDir fs1 (src @ [n])" by (simp add: isDir_def)
  from entryNames_exists[OF assms(1)] l have "isDir fs1 src" by (simp add: isDir_def)
  then obtain entries where e: "readdirSync fs1 src = Inr entries"
    using isDir_readdirSync by blast
  from readdirSync_entryNames[OF e] l assms(1) have "n \<in> set (map fst entries)"
    by (simp add: entryNames_def)
  with d have "\<exists>n\<in>set (map fst entries). isDir fs1 (src @ [n])" by blast
  from forEach_copy_throws[OF this assms(3,4,5)] Done e entryNames_exists[OF assms(1)]
  show ?thesis by (simp add: copyDir_def)
qed

lemma copyDir_ok:
  assumes "\<not> isFile fs src" and "\<forall>n\<in>set (entryNames fs src). isFile fs (src @ [n])"
    and "\<forall>r. prefix r dst \<longrightarrow> \<not> isFile fs r"
    and "\<forall>n\<in>set (entryNames fs src). \<not> isDir fs (dst @ [n])"
    and "src \<noteq> []" "dst \<noteq> []" "hd src \<noteq> hd dst"
  shows "\<exists>fs'. copyDir src dst fs = Done fs'"
proof (cases "existsSync fs src")
  case False
  then show ?thesis by (simp add: copyDir_def)
next
  case True
  from ensureDir_ok[OF assms(3)] obtain fs1 where
    e: "ensureDir fs dst = Done fs1" "isDir fs1 dst" by blast
  have l: "lookup fs1 src = lookup fs src"
    by (rule ensureDir_frame[OF e(1)]) (use heads_apart[OF assms(5,6,7), of "[]" "[]"] in simp)
  from True assms(1) have "isDir fs src"
    by (auto simp: existsSync_def isFile_def isDir_def split: node.splits)
  with l have "isDir fs1 src" by (simp add: isDir_def)
  then obtain entries where r: "readdirSync fs1 src = Inr entries"
    using isDir_readdirSync by blast
  from readdirSync_entryNames[OF r] l have names: "map fst entries = entryNames fs src"
    by (simp add: entryNames_def)
  have 1: "\<forall>n\<in>set (map fst entries). isFile fs1 (src @ [n])"
  proof
    fix n assume n: "n \<in> set (map fst entries)"
    have "lookup fs1 (src @ [n]) = lookup fs (src @ [n])"
      by (rule ensureDir_frame[OF e(1)]) (use heads_apart[OF assms(5,6,7), of "[n]" "[]"] in simp)
    with assms(2) n names show "isFile fs1 (src @ [n])" by (simp add: isFile_def)
  qed
  have 3: "\<forall>n\<in>set (map fst entries). \<not> isDir fs1 (dst @ [n])"
  proof
    fix n assume n: "n \<in> set (map fst entries)"
    have "lookup fs1 (dst @ [n]) = lookup fs (dst @ [n])"
      by (rule ensureDir_frame[OF e(1)]) simp
    with assms(4) n names show "\<not> isDir fs1 (dst @ [n])" by (simp add: isDir_def)
  qed
  from forEach_copy_ok[OF 1 e(2) 3 assms(5,6,7)] e(1) r True
  show ?thesis by (simp add: copyDir_def)
qed

lemmas asset_dirs = imagesDir_def fontsDir_def buildImagesDir_def buildFontsDir_def
  buildAssetsDir_def buildDir_def path_join_def

lemma copyAssets_Done:
  assumes "copyAssets fs = Done fs'"
  obtains fs1 fs2 where "ensureDir fs buildAssetsDir = Done fs1"
    "copyDir imagesDir buildImagesDir fs1 = Done fs2"
    "copyDir fontsDir buildFontsDir fs2 = Done fs'"
proof (cases "ensureDir fs buildAssetsDir")
  case (Threw e fs1)
  with assms show ?thesis by (simp add: copyAssets_def)
next
  case (Done fs1)
  show ?thesis
  proof (cases "copyDir imagesDir buildImagesDir fs1")
    case (Threw e fs2)
    with Done assms show ?thesis by (simp add: copyAssets_def)
  next
    case fs2: (Done fs2)
    with Done assms that show ?thesis by (simp add: copyAssets_def)
  qed
qed

lemma after_images_frame:
  assumes "ensureDir fs buildAssetsDir = Done fs1"
    and "copyDir imagesDir buildImagesDir fs1 = Done fs2"
    and "\<not> prefix p buildImagesDir"
    and "\<forall>n\<in>set (entryNames fs imagesDir). p \<noteq> buildImagesDir @ [n]"
  shows "lookup fs2 p = lookup fs p"
proof -
  have ai: "imagesDir \<noteq> []" "buildImagesDir \<noteq> []" "hd imagesDir \<noteq> hd buildImagesDir"
    by (simp_all add: asset_dirs)
  have F1: "lookup fs1 q = lookup fs q" if "\<not> prefix q buildAssetsDir" for q
    using ensureDir_frame[OF assms(1) that] .
  have ni: "entryNames fs1 imagesDir = entryNames fs imagesDir"
    by (rule entryNames_lookup, rule F1) (simp add: asset_dirs)
  have "prefix buildAssetsDir buildImagesDir" by (simp add: asset_dirs)
  with assms(3) have "\<not> prefix p buildAssetsDir"
    using prefix_order.trans by blast
  from F1[OF this] copyDir_frame[OF assms(2) ai assms(3)] assms(4) ni show ?thesis by simp
qed

lemma copyAssets_throws_images:
  assumes "n \<in> set (entryNames fs imagesDir)" and "isDir fs (imagesDir @ [n])"
  shows "\<exists>e fs'. copyAssets fs = Threw e fs'"
proof (cases "ensureDir fs buildAssetsDir")
  case (Threw e fs1)
  then show ?thesis by (simp add: copyAssets_def)
next
  case (Done fs1)
  have ai: "imagesDir \<noteq> []" "buildImagesDir \<noteq> []" "hd imagesDir \<noteq> hd buildImagesDir"
    by (simp_all add: asset_dirs)
  have "lookup fs1 imagesDir = lookup fs imagesDir"
    by (rule ensureDir_frame[OF Done]) (simp add: asset_dirs)
  with assms(1) have n: "n \<in> set (entryNames fs1 imagesDir)" by (simp add: entryNames_def)
  have "lookup fs1 (imagesDir @ [n]) = lookup fs (imagesDir @ [n])"
    by (rule ensureDir_frame[OF Done]) (simp add: asset_dirs)
  with assms(2) have "isDir fs1 (imagesDir @ [n])" by (simp add: isDir_def)
  from copyDir_throws[OF n this ai] Done show ?thesis by (auto simp: copyAssets_def)
qed

lemma copyAssets_throws_fonts:
  assumes "n \<in> set (entryNames fs fontsDir)" and "isDir fs (fontsDir @ [n])"
  shows "\<exists>e fs'. copyAssets fs = Threw e fs'"
proof (cases "ensureDir fs buildAssetsDir")
  case (Threw e fs1)
  then show ?thesis by (simp add: copyAssets_def)
next
  case (Done fs1)
  show ?thesis
  proof (cases "copyDir imagesDir buildImagesDir fs1")
    case (Threw e fs2)
    with Done show ?thesis by (simp add: copyAssets_def)
  next
    case fs2: (Done fs2)
    have af: "fontsDir \<noteq> []" "buildFontsDir \<noteq> []" "hd fontsDir \<noteq> hd buildFontsDir"
      by (simp_all add: asset_dirs)
    have "lookup fs2 fontsDir = lookup fs fontsDir"
      by (rule after_images_frame[OF Done fs2]) (simp_all add: asset_dirs)
    with assms(1) have n: "n \<in> set (entryNames fs2 fontsDir)" by (simp add: entryNames_def)
    have "lookup fs2 (fontsDir @ [n]) = lookup fs (fontsDir @ [n])"
      by (rule after_images_frame[OF Done fs2]) (simp_all add: asset_dirs)
    with assms(2) have "isDir fs2 (fontsDir @ [n])" by (simp add: isDir_def)
    from copyDir_throws[OF n this af] Done fs2 show ?thesis by (auto simp: copyAssets_def)
  qed
qed

lemma copyAssets_ok:
  assumes b: "isDir fs buildDir" "\<not> isFile fs buildAssetsDir" "\<not> isFile fs buildImagesDir"
      "\<not> isFile fs buildFontsDir"
    and src: "\<not> isFile fs imagesDir" "\<not> isFile fs fontsDir"
    and im: "\<forall>name\<in>set (entryNames fs imagesDir).
        isFile fs (imagesDir @ [name]) \<and> \<not> isDir fs (buildImagesDir @ [name])"
    and fo: "\<forall>name\<in>set (entryNames fs fontsDir).
        isFile fs (fontsDir @ [name]) \<and> \<not> isDir fs (buildFontsDir @ [name])"
  shows "\<exists>fs'. copyAssets fs = Done fs'"
proof -
  have ai: "imagesDir \<noteq> []" "buildImagesDir \<noteq> []" "hd imagesDir \<noteq> hd buildImagesDir"
    and af: "fontsDir \<noteq> []" "buildFontsDir \<noteq> []" "hd fontsDir \<noteq> hd buildFontsDir"
    by (simp_all add: asset_dirs)
  have "\<forall>r. prefix r (buildDir @ [''assets'']) \<longrightarrow> \<not> isFile fs r"
    by (rule no_file_above[OF b(1)]) (use b(2) in \<open>simp add: asset_dirs\<close>)
  then have "\<forall>r. prefix r buildAssetsDir \<longrightarrow> \<not> isFile fs r"
    by (simp add: buildAssetsDir_def path_join_def)
  from ensureDir_ok[OF this] obtain fs1 where
    s1: "ensureDir fs buildAssetsDir = Done fs1" "isDir fs1 buildAssetsDir" by blast
  have F1: "lookup fs1 q = lookup fs q" if "\<not> prefix q buildAssetsDir" for q
    using ensureDir_frame[OF s1(1) that] .
  have ni: "entryNames fs1 imagesDir = entryNames fs imagesDir"
    by (rule entryNames_lookup, rule F1) (simp add: asset_dirs)
  have i1: "\<not> isFile fs1 imagesDir"
    using src(1) F1[of imagesDir] by (simp add: isFile_def asset_dirs)
  have i2: "\<forall>n\<in>set (entryNames fs1 imagesDir). isFile fs1 (imagesDir @ [n])"
  proof
    fix n assume "n \<in> set (entryNames fs1 imagesDir)"
    with ni im have "isFile fs (imagesDir @ [n])" by simp
    moreover have "lookup fs1 (imagesDir @ [n]) = lookup fs (imagesDir @ [n])"
      by (rule F1) (simp add: asset_dirs)
    ultimately show "isFile fs1 (imagesDir @ [n])" by (simp add: isFile_def)
  qed
  have "lookup fs1 buildImagesDir = lookup fs buildImagesDir"
    by (rule F1) (simp add: asset_dirs)
  with b(3) have "\<not> isFile fs1 (buildAssetsDir @ [''images''])"
    by (simp add: isFile_def buildImagesDir_def path_join_def)
  from no_file_above[OF s1(2) this]
  have i3: "\<forall>r. prefix r buildImagesDir \<longrightarrow> \<not> isFile fs1 r"
    by (simp add: buildImagesDir_def path_join_def)
  have i4: "\<forall>n\<in>set (entryNames fs1 imagesDir). \<not> isDir fs1 (buildImagesDir @ [n])"
  proof
    fix n assume "n \<in> set (entryNames fs1 imagesDir)"
    with ni im have "\<not> isDir fs (buildImagesDir @ [n])" by simp
    moreover have "lookup fs1 (buildImagesDir @ [n]) = lookup fs (buildImagesDir @ [n])"
      by (rule F1) (simp add: asset_dirs)
    ultimately show "\<not> isDir fs1 (buildImagesDir @ [n])" by (simp add: isDir_def)
  qed
  from copyDir_ok[OF i1 i2 i3 i4 ai] obtain fs2 where
    s2: "copyDir imagesDir buildImagesDir fs1 = Done fs2" by blast
  have F2: "lookup fs2 q = lookup fs q"
    if "\<not> prefix q buildImagesDir" "\<forall>n\<in>set (entryNames fs imagesDir). q \<noteq> buildImagesDir @ [n]"
    for q
    using after_images_frame[OF s1(1) s2 that] .
  have "lookup fs2 fontsDir = lookup fs fontsDir"
    by (rule F2) (simp_all add: asset_dirs)
  then have nf: "entryNames fs2 fontsDir = entryNames fs fontsDir"
    and f1: "\<not> isFile fs2 fontsDir"
    using src(2) by (simp_all add: entryNames_def isFile_def)
  have f2: "\<forall>n\<in>set (entryNames fs2 fontsDir). isFile fs2 (fontsDir @ [n])"
  proof
    fix n assume "n \<in> set (entryNames fs2 fontsDir)"
    with nf fo have "isFile fs (fontsDir @ [n])" by simp
    moreover have "lookup fs2 (fontsDir @ [n]) = lookup fs (fontsDir @ [n])"
      by (rule F2) (simp_all add: asset_dirs)
    ultimately show "isFile fs2 (fontsDir @ [n])" by (simp add: isFile_def)
  qed
  have d2: "isDir fs2 buildAssetsDir"
    by (rule copyDir_isDir_kept[OF s2 ai s1(2)])
  have "lookup fs2 buildFontsDir = lookup fs buildFontsDir"
    by (rule F2) (simp_all add: asset_dirs)
  with b(4) have "\<not> isFile fs2 (buildAssetsDir @ [''fonts''])"
    by (simp add: isFile_def buildFontsDir_def path_join_def)
  from no_file_above[OF d2 this]
  have f3: "\<forall>r. prefix r buildFontsDir \<longrightarrow> \<not> isFile fs2 r"
    by (simp add: buildFontsDir_def path_join_def)
  have f4: "\<forall>n\<in>set (entryNames fs2 fontsDir). \<not> isDir fs2 (buildFontsDir @ [n])"
  proof
    fix n assume "n \<in> set (entryNames fs2 fontsDir)"
    with nf fo have "\<not> isDir fs (buildFontsDir @ [n])" by simp
    moreover have "lookup fs2 (buildFontsDir @ [n]) = lookup fs (buildFontsDir @ [n])"
      by (rule F2) (simp_all add: asset_dirs)
    ultimately show "\<not> isDir fs2 (buildFontsDir @ [n])" by (simp add: isDir_def)
  qed
  from copyDir_ok[OF f1 f2 f3 f4 af] obtain fs' where
    "copyDir fontsDir buildFontsDir fs2 = Done fs'" by blast
  with s1(1) s2 show ?thesis by (simp add: copyAssets_def)
qed

text \<open>
  C9. When \<open>copyAssets\<close> completes, every entry of the core images directory is in
  \<open>build/assets/images\<close> under the same name and with the same bytes, whatever was
  there before, and likewise for the fonts; and every path that is neither one of these
  destination files nor a directory above them holds what it held before. In particular
  a file of the destination directory whose name is no longer in the source is still
  there.
\<close>

theorem copyAssets_copies_and_keeps:
  assumes "copyAssets fs = Done fs'"
  shows "(\<forall>name\<in>set (entryNames fs imagesDir). \<exists>bytes.
            lookup fs (path_join imagesDir [name]) = Some (File bytes)
          \<and> lookup fs' (path_join buildImagesDir [name]) = Some (File bytes))
       \<and> (\<forall>name\<in>set (entryNames fs fontsDir). \<exists>bytes.
            lookup fs (path_join fontsDir [name]) = Some (File bytes)
          \<and> lookup fs' (path_join buildFontsDir [name]) = Some (File bytes))
       \<and> (\<forall>p. \<not> prefix p buildImagesDir \<and> \<not> prefix p buildFontsDir
              \<and> (\<forall>name\<in>set (entryNames fs imagesDir). p \<noteq> path_join buildImagesDir [name])
              \<and> (\<forall>name\<in>set (entryNames fs fontsDir). p \<noteq> path_join buildFontsDir [name])
            \<longrightarrow> lookup fs' p = lookup fs p)"
proof -
  from assms obtain fs1 fs2 where s: "ensureDir fs buildAssetsDir = Done fs1"
    "copyDir imagesDir buildImagesDir fs1 = Done fs2"
    "copyDir fontsDir buildFontsDir fs2 = Done fs'"
    by (rule copyAssets_Done)
  have ai: "imagesDir \<noteq> []" "buildImagesDir \<noteq> []" "hd imagesDir \<noteq> hd buildImagesDir"
    and af: "fontsDir \<noteq> []" "buildFontsDir \<noteq> []" "hd fontsDir \<noteq> hd buildFontsDir"
    by (simp_all add: asset_dirs)
  have F1: "lookup fs1 p = lookup fs p" if "\<not> prefix p buildAssetsDir" for p
    using ensureDir_frame[OF s(1) that] .
  have ni: "entryNames fs1 imagesDir = entryNames fs imagesDir"
    by (rule entryNames_lookup, rule F1) (simp add: asset_dirs)
  have F2: "lookup fs2 p = lookup fs1 p"
    if "\<not> prefix p buildImagesDir" "\<forall>n\<in>set (entryNames fs imagesDir). p \<noteq> buildImagesDir @ [n]" for p
    using copyDir_frame[OF s(2) ai that(1)] that(2) ni by simp
  have "lookup fs2 fontsDir = lookup fs fontsDir"
    using F2[of fontsDir] F1[of fontsDir] by (simp add: asset_dirs)
  then have nf: "entryNames fs2 fontsDir = entryNames fs fontsDir"
    by (rule entryNames_lookup)
  have F3: "lookup fs' p = lookup fs2 p"
    if "\<not> prefix p buildFontsDir" "\<forall>n\<in>set (entryNames fs fontsDir). p \<noteq> buildFontsDir @ [n]" for p
    using copyDir_frame[OF s(3) af that(1)] that(2) nf by simp
  have i: "\<exists>bytes. lookup fs (path_join imagesDir [name]) = Some (File bytes)
          \<and> lookup fs' (path_join buildImagesDir [name]) = Some (File bytes)"
    if "name \<in> set (entryNames fs imagesDir)" for name
  proof -
    from that ni have "name \<in> set (entryNames fs1 imagesDir)" by simp
    from copyDir_copied[OF s(2) ai this] obtain d where
      d: "lookup fs1 (imagesDir @ [name]) = Some (File d)"
      "lookup fs2 (buildImagesDir @ [name]) = Some (File d)" by blast
    have "lookup fs1 (imagesDir @ [name]) = lookup fs (imagesDir @ [name])"
      by (rule F1) (simp add: asset_dirs)
    moreover have "lookup fs' (buildImagesDir @ [name]) = lookup fs2 (buildImagesDir @ [name])"
      by (rule F3) (simp_all add: asset_dirs)
    ultimately show ?thesis using d by (intro exI[of _ d]) (simp add: path_join_def)
  qed
  have f: "\<exists>bytes. lookup fs (path_join fontsDir [name]) = Some (File bytes)
          \<and> lookup fs' (path_join buildFontsDir [name]) = Some (File bytes)"
    if "name \<in> set (entryNames fs fontsDir)" for name
  proof -
    from that nf have "name \<in> set (entryNames fs2 fontsDir)" by simp
    from copyDir_copied[OF s(3) af this] obtain d where
      d: "lookup fs2 (fontsDir @ [name]) = Some (File d)"
      "lookup fs' (buildFontsDir @ [name]) = Some (File d)" by blast
    have "lookup fs2 (fontsDir @ [name]) = lookup fs1 (fontsDir @ [name])"
      by (rule F2) (simp_all add: asset_dirs)
    moreover have "lookup fs1 (fontsDir @ [name]) = lookup fs (fontsDir @ [name])"
      by (rule F1) (simp add: asset_dirs)
    ultimately show ?thesis using d by (intro exI[of _ d]) (simp add: path_join_def)
  qed
  have k: "lookup fs' p = lookup fs p"
    if "\<not> prefix p buildImagesDir" "\<not> prefix p buildFontsDir"
      "\<forall>name\<in>set (entryNames fs imagesDir). p \<noteq> path_join buildImagesDir [name]"
      "\<forall>name\<in>set (entryNames fs fontsDir). p \<noteq> path_join buildFontsDir [name]" for p
  proof -
    have "prefix buildAssetsDir buildImagesDir" by (simp add: asset_dirs)
    with that(1) have "\<not> prefix p buildAssetsDir"
      using prefix_order.trans by blast
    from F1[OF this] F2[OF that(1)] F3[OF that(2)] that(3,4) show ?thesis
      by (simp add: path_join_def)
  qed
  from i f k show ?thesis by blast
qed

theorem copyAssets_copies_and_keeps_witness:
  "\<exists>fs'. copyAssets ex_fs = Done fs'
     \<and> lookup ex_fs (path_join imagesDir [''i.png'']) = Some (File ''PNG'')
     \<and> lookup fs' (path_join buildImagesDir [''i.png'']) = Some (File ''PNG'')
     \<and> lookup ex_fs (path_join imagesDir [''old.png'']) = None
     \<and> lookup fs' (path_join buildImagesDir [''old.png'']) = Some (File ''OLD'')"
proof -
  have "case copyAssets ex_fs of Done fs' \<Rightarrow> True | Threw e fs' \<Rightarrow> False"
    by code_simp
  then obtain fs' where d: "copyAssets ex_fs = Done fs'"
    by (cases "copyAssets ex_fs") auto
  have n: "entryNames ex_fs imagesDir = [''i.png'']" "entryNames ex_fs fontsDir = []"
    by code_simp+
  have l: "lookup ex_fs (path_join imagesDir [''i.png'']) = Some (File ''PNG'')"
    "lookup ex_fs (path_join imagesDir [''old.png'']) = None"
    "lookup ex_fs (path_join buildImagesDir [''old.png'']) = Some (File ''OLD'')"
    by code_simp+
  have p: "\<not> prefix (path_join buildImagesDir [''old.png'']) buildImagesDir"
    "\<not> prefix (path_join buildImagesDir [''old.png'']) buildFontsDir"
    "path_join buildImagesDir [''old.png''] \<noteq> path_join buildImagesDir [''i.png'']"
    by (simp_all add: asset_dirs)
  from copyAssets_copies_and_keeps [OF d] n l p
  have "lookup fs' (path_join buildImagesDir [''i.png'']) = Some (File ''PNG'')"
    and "lookup fs' (path_join buildImagesDir [''old.png'']) = Some (File ''OLD'')"
    by auto
  with d l show ?thesis by blast
qed

text \<open>
  C10. \<open>copyAssets\<close> copies every entry that \<open>readdirSync\<close> names, whatever its
  type. If an entry of the images or of the fonts directory is a directory, the stage
  throws, and \<open>updateAssetPaths\<close>, which comes after it, is not run. If all the entries
  are regular files, the stage completes, provided the destination can take them: the
  build directory exists, no file stands where a directory is needed, and no directory of
  the destination bears the name of an entry.
\<close>

theorem copyAssets_entry_types:
  "((\<exists>name\<in>set (entryNames fs imagesDir). isDir fs (path_join imagesDir [name]))
      \<or> (\<exists>name\<in>set (entryNames fs fontsDir). isDir fs (path_join fontsDir [name]))
     \<longrightarrow> (\<exists>e fs'. copyAssets fs = Threw e fs'
            \<and> andThen (copyAssets fs) updateAssetPaths = Threw e fs'))
   \<and> (isDir fs buildDir \<and> \<not> isFile fs buildAssetsDir \<and> \<not> isFile fs buildImagesDir
        \<and> \<not> isFile fs buildFontsDir \<and> \<not> isFile fs imagesDir \<and> \<not> isFile fs fontsDir
        \<and> (\<forall>name\<in>set (entryNames fs imagesDir).
              isFile fs (path_join imagesDir [name])
              \<and> \<not> isDir fs (path_join buildImagesDir [name]))
        \<and> (\<forall>name\<in>set (entryNames fs fontsDir).
              isFile fs (path_join fontsDir [name])
              \<and> \<not> isDir fs (path_join buildFontsDir [name]))
     \<longrightarrow> (\<exists>fs'. copyAssets fs = Done fs'))"
proof (intro conjI impI)
  assume "(\<exists>name\<in>set (entryNames fs imagesDir). isDir fs (path_join imagesDir [name]))
      \<or> (\<exists>name\<in>set (entryNames fs fontsDir). isDir fs (path_join fontsDir [name]))"
  then have "\<exists>e fs'. copyAssets fs = Threw e fs'"
    by (auto simp: path_join_def dest: copyAssets_throws_images copyAssets_throws_fonts)
  then show "\<exists>e fs'. copyAssets fs = Threw e fs'
            \<and> andThen (copyAssets fs) updateAssetPaths = Threw e fs'"
    by auto
next
  assume "isDir fs buildDir \<and> \<not> isFile fs buildAssetsDir \<and> \<not> isFile fs buildImagesDir
        \<and> \<not> isFile fs buildFontsDir \<and> \<not> isFile fs imagesDir \<and> \<not> isFile fs fontsDir
        \<and> (\<forall>name\<in>set (entryNames fs imagesDir).
              isFile fs (path_join imagesDir [name])
              \<and> \<not> isDir fs (path_join buildImagesDir [name]))
        \<and> (\<forall>name\<in>set (entryNames fs fontsDir).
              isFile fs (path_join fontsDir [name])
              \<and> \<not> isDir fs (path_join buildFontsDir [name]))"
  then show "\<exists>fs'. copyAssets fs = Done fs'"
    by (intro copyAssets_ok) (simp_all add: path_join_def)
qed

theorem copyAssets_entry_types_witness:
  "''icons'' \<in> set (entryNames subdir_fs imagesDir)
   \<and> isDir subdir_fs (path_join imagesDir [''icons''])
   \<and> (\<exists>e fs'. copyAssets subdir_fs = Threw e fs'
          \<and> andThen (copyAssets subdir_fs) updateAssetPaths = Threw e fs')
   \<and> isDir ex_fs buildDir \<and> \<not> isFile ex_fs buildAssetsDir \<and> \<not> isFile ex_fs buildImagesDir
   \<and> \<not> isFile ex_fs buildFontsDir \<and> \<not> isFile ex_fs imagesDir \<and> \<not> isFile ex_fs fontsDir
   \<and> list_all (\<lambda>name. isFile ex_fs (path_join imagesDir [name])
                 \<and> \<not> isDir ex_fs (path_join buildImagesDir [name]))
        (entryNames ex_fs imagesDir)
   \<and> list_all (\<lambda>name. isFile ex_fs (path_join fontsDir [name])
                 \<and> \<not> isDir ex_fs (path_join buildFontsDir [name]))
        (entryNames ex_fs fontsDir)
   \<and> (\<exists>fs'. copyAssets ex_fs = Done fs')"
proof -
  have h1: "''icons'' \<in> set (entryNames subdir_fs imagesDir)"
    "isDir subdir_fs (path_join imagesDir [''icons''])"
    by code_simp+
  have h2: "isDir ex_fs buildDir" "\<not> isFile ex_fs buildAssetsDir"
    "\<not> isFile ex_fs buildImagesDir" "\<not> isFile ex_fs buildFontsDir"
    "\<not> isFile ex_fs imagesDir" "\<not> isFile ex_fs fontsDir"
    by code_simp+
  have h3: "\<forall>name\<in>set (entryNames ex_fs imagesDir).
      isFile ex_fs (path_join imagesDir [name])
      \<and> \<not> isDir ex_fs (path_join buildImagesDir [name])"
    by code_simp
  have h4: "\<forall>name\<in>set (entryNames ex_fs fontsDir).
      isFile ex_fs (path_join fontsDir [name])
      \<and> \<not> isDir ex_fs (path_join buildFontsDir [name])"
    by code_simp
  from copyAssets_entry_types [of subdir_fs] h1
  have a: "\<exists>e fs'. copyAssets subdir_fs = Threw e fs'
          \<and> andThen (copyAssets subdir_fs) updateAssetPaths = Threw e fs'"
    by blast
  from copyAssets_entry_types [of ex_fs] h2 h3 h4
  have b: "\<exists>fs'. copyAssets ex_fs = Done fs'"
    by blast
  from a b h1 h2 h3 h4 show ?thesis
    unfolding list_all_iff by blast
qed

section \<open>A missing template\<close>

lemma runBuild_no_template:
  "\<not> existsSync fs templateFile \<Longrightarrow> runBuild fs = Threw ENOENT fs"
  by (simp add: runBuild_def buildHTML_def mergedHTML_def readFileSync_def existsSync_def)

text \<open>
  C7. Without the template file, \<open>runBuild\<close> throws in \<open>buildHTML\<close>, before anything
  is written and before any other stage is run: the file system is the one it was given.
  The script as a whole throws as well, and \<open>index.html\<close>, \<open>styles.css\<close> and
  \<open>scripts.js\<close> of the build directory are what they were before the run (absent, or the
  files of an earlier run).
\<close>

theorem missing_template_aborts:
  assumes "\<not> existsSync fs templateFile"
  shows "runBuild fs = Threw ENOENT fs
     \<and> (\<exists>e fs'. script fs = Threw e fs'
          \<and> lookup fs' (path_join buildDir [''index.html''])
              = lookup fs (path_join buildDir [''index.html''])
          \<and> lookup fs' (path_join buildDir [''styles.css''])
              = lookup fs (path_join buildDir [''styles.css''])
          \<and> lookup fs' (path_join buildDir [''scripts.js''])
              = lookup fs (path_join buildDir [''scripts.js'']))"
proof (cases "ensureDir fs buildDir")
  case (Threw e fs1)
  then have "fs1 = fs"
    by (auto simp: ensureDir_def attempt_def split: if_splits sum.splits)
  with Threw runBuild_no_template[OF assms] show ?thesis by (simp add: script_def)
next
  case (Done fs1)
  have F: "lookup fs1 p = lookup fs p" if "\<not> prefix p buildDir" for p
    using ensureDir_frame[OF Done that] .
  have "lookup fs1 templateFile = lookup fs templateFile"
    by (rule F) (simp add: templateFile_def buildDir_def)
  with assms have "\<not> existsSync fs1 templateFile" by (simp add: existsSync_def)
  from runBuild_no_template[OF this] Done have "script fs = Threw ENOENT fs1"
    by (simp add: script_def)
  moreover have "lookup fs1 (path_join buildDir [name]) = lookup fs (path_join buildDir [name])"
    for name
    by (rule F) (simp add: buildDir_def path_join_def)
  ultimately show ?thesis using runBuild_no_template[OF assms] by simp
qed

theorem missing_template_aborts_witness:
  "\<not> existsSync no_template_fs templateFile
   \<and> runBuild no_template_fs = Threw ENOENT no_template_fs
   \<and> (\<exists>e fs'. script no_template_fs = Threw e fs'
          \<and> lookup fs' (path_join buildDir [''index.html'']) = Some (File ''old'')
          \<and> lookup fs' (path_join buildDir [''styles.css'']) = None
          \<and> lookup fs' (path_join buildDir [''scripts.js'']) = None)"
proof -
  have h: "\<not> existsSync no_template_fs templateFile"
    by code_simp
  have l: "lookup no_template_fs (path_join buildDir [''index.html'']) = Some (File ''old'')"
    "lookup no_template_fs (path_join buildDir [''styles.css'']) = None"
    "lookup no_template_fs (path_join buildDir [''scripts.js'']) = None"
    by code_simp+
  from missing_template_aborts [OF h] h l show ?thesis by auto
qed

section \<open>Running the build twice\<close>

lemma lookup_below:
  "lookup fs' p = lookup fs p \<Longrightarrow> lookup fs' (p @ q) = lookup fs (p @ q)"
  by (simp add: lookup_append)

lemma sameInputs_component:
  assumes "sameInputs fs fs'"
  shows "lookup fs' (componentFile name ext) = lookup fs (componentFile name ext)"
proof -
  from assms have "lookup fs' componentsDir = lookup fs componentsDir"
    by (simp add: sameInputs_def)
  from lookup_below[OF this] show ?thesis by (simp add: componentFile_def path_join_def)
qed

lemma sameInputs_core:
  assumes "sameInputs fs fs'"
  shows "lookup fs' (''core'' # p) = lookup fs (''core'' # p)"
proof -
  from assms have "lookup fs' [''core''] = lookup fs [''core'']"
    by (simp add: sameInputs_def)
  from lookup_below[OF this, of p] show ?thesis by simp
qed

lemma readFileSync_lookup:
  "lookup fs' p = lookup fs p \<Longrightarrow> readFileSync fs' p = readFileSync fs p"
  by (simp add: readFileSync_def)

lemma existsSync_lookup:
  "lookup fs' p = lookup fs p \<Longrightarrow> existsSync fs' p = existsSync fs p"
  by (simp add: existsSync_def)

lemma sameInputs_insertComponent:
  assumes "sameInputs fs fs'"
  shows "insertComponent fs' = insertComponent fs"
proof (intro ext)
  fix name template
  note l = sameInputs_component[OF assms, of name "''.html''"]
  show "insertComponent fs' name template = insertComponent fs name template"
    unfolding insertComponent_def Let_def readFileSync_lookup[OF l] existsSync_lookup[OF l] ..
qed

lemma sameInputs_componentDirs:
  "sameInputs fs fs' \<Longrightarrow> componentDirs fs' = componentDirs fs"
  by (simp add: componentDirs_def readdirSync_def sameInputs_def)

lemma sameInputs_mergedHTML:
  assumes "sameInputs fs fs'"
  shows "mergedHTML fs' = mergedHTML fs"
proof -
  from assms have "lookup fs' templateFile = lookup fs templateFile"
    by (simp add: sameInputs_def)
  from readFileSync_lookup[OF this] show ?thesis
    unfolding mergedHTML_def sameInputs_insertComponent[OF assms]
      sameInputs_componentDirs[OF assms] by simp
qed

lemma sameInputs_combined:
  assumes "sameInputs fs fs'" and "hd coreDir = ''core''" "coreDir \<noteq> []"
  shows "combined fs' coreDir coreFiles ext kind = combined fs coreDir coreFiles ext kind"
proof -
  from assms(2,3) obtain r where r: "coreDir = ''core'' # r" by (cases coreDir) auto
  have a: "appendCoreFile fs' coreDir = appendCoreFile fs coreDir"
  proof (intro ext)
    fix f acc
    have l: "lookup fs' (path_join coreDir [f]) = lookup fs (path_join coreDir [f])"
      using sameInputs_core[OF assms(1), of "r @ [f]"] by (simp add: r path_join_def)
    show "appendCoreFile fs' coreDir f acc = appendCoreFile fs coreDir f acc"
      unfolding appendCoreFile_def Let_def readFileSync_lookup[OF l] existsSync_lookup[OF l] ..
  qed
  have b: "appendComponentFile fs' ext kind = appendComponentFile fs ext kind"
  proof (intro ext)
    fix name acc
    note l = sameInputs_component[OF assms(1), of name ext]
    show "appendComponentFile fs' ext kind name acc = appendComponentFile fs ext kind name acc"
      unfolding appendComponentFile_def Let_def readFileSync_lookup[OF l] existsSync_lookup[OF l] ..
  qed
  show ?thesis
    unfolding combined_def a b sameInputs_componentDirs[OF assms(1)] ..
qed

lemma sameInputs_combinedCSS: "sameInputs fs fs' \<Longrightarrow> combinedCSS fs' = combinedCSS fs"
  by (simp add: combinedCSS_def sameInputs_combined coreStylesDir_def)

lemma sameInputs_combinedJS: "sameInputs fs fs' \<Longrightarrow> combinedJS fs' = combinedJS fs"
  by (simp add: combinedJS_def sameInputs_combined coreScriptsDir_def)

lemma sameInputs_trans: "sameInputs a b \<Longrightarrow> sameInputs b c \<Longrightarrow> sameInputs a c"
  by (simp add: sameInputs_def)

lemma sameInputsI:
  "(\<And>p. p \<noteq> [] \<Longrightarrow> hd p \<noteq> ''build'' \<Longrightarrow> lookup fs' p = lookup fs p) \<Longrightarrow> sameInputs fs fs'"
  by (simp add: sameInputs_def templateFile_def componentsDir_def)

lemmas output_paths = indexHtml_def stylesCss_def scriptsJs_def buildDir_def path_join_def

lemma attempt_Done: "attempt fs r = Done fs' \<longleftrightarrow> r = Inr fs'"
  by (cases r) (simp_all add: attempt_def)

lemma andThen_Done:
  "andThen out f = Done fs' \<longleftrightarrow> (\<exists>fs1. out = Done fs1 \<and> f fs1 = Done fs')"
  by (cases out) simp_all

lemma buildHTML_Done:
  "buildHTML fs = Done fs' \<Longrightarrow>
   \<exists>h. mergedHTML fs = Inr h \<and> writeFileSync fs indexHtml h = Inr fs'"
  by (auto simp: buildHTML_def indexHtml_def attempt_Done split: sum.splits)

lemma buildCSS_Done:
  "buildCSS fs = Done fs' \<Longrightarrow>
   \<exists>c. combinedCSS fs = Inr c \<and> writeFileSync fs stylesCss c = Inr fs'"
  by (auto simp: buildCSS_def stylesCss_def attempt_Done split: sum.splits)

lemma buildJS_Done:
  "buildJS fs = Done fs' \<Longrightarrow>
   \<exists>j. combinedJS fs = Inr j \<and> writeFileSync fs scriptsJs j = Inr fs'"
  by (auto simp: buildJS_def scriptsJs_def attempt_Done split: sum.splits)

lemma rewriteFile_Done:
  "rewriteFile file rewrite fs = Done fs' \<Longrightarrow>
   (\<not> existsSync fs file \<and> fs' = fs) \<or>
   (\<exists>t. readFileSync fs file = Inr t \<and> writeFileSync fs file (rewrite t) = Inr fs')"
  by (auto simp: rewriteFile_def attempt_Done split: if_splits sum.splits)

lemma readFileSync_Inr: "readFileSync fs p = Inr t \<longleftrightarrow> lookup fs p = Some (File t)"
  by (auto simp: readFileSync_def split: option.splits node.splits)

lemma rewriteFile_frame:
  "rewriteFile file rewrite fs = Done fs' \<Longrightarrow> \<not> prefix p file \<Longrightarrow> lookup fs' p = lookup fs p"
  by (auto dest!: rewriteFile_Done dest: writeFileSync_frame)

lemma rewriteFile_rewritten:
  "rewriteFile file rewrite fs = Done fs' \<Longrightarrow> lookup fs file = Some (File t) \<Longrightarrow>
   lookup fs' file = Some (File (rewrite t))"
  by (auto dest!: rewriteFile_Done dest: writeFileSync_written
      simp: existsSync_def readFileSync_Inr)

lemma copyAssets_frame:
  assumes "copyAssets fs = Done fs'"
    and "\<not> prefix p buildAssetsDir" and "\<not> prefix buildAssetsDir p"
  shows "lookup fs' p = lookup fs p"
proof -
  from assms(1) obtain fs1 fs2 where s: "ensureDir fs buildAssetsDir = Done fs1"
    "copyDir imagesDir buildImagesDir fs1 = Done fs2"
    "copyDir fontsDir buildFontsDir fs2 = Done fs'"
    by (rule copyAssets_Done)
  have af: "fontsDir \<noteq> []" "buildFontsDir \<noteq> []" "hd fontsDir \<noteq> hd buildFontsDir"
    by (simp_all add: asset_dirs)
  have below: "\<not> prefix p (buildAssetsDir @ q)" for q
  proof
    assume "prefix p (buildAssetsDir @ q)"
    moreover have "prefix buildAssetsDir (buildAssetsDir @ q)" by simp
    ultimately have "prefix p buildAssetsDir \<or> prefix buildAssetsDir p"
      using prefix_same_cases by blast
    with assms(2,3) show False by simp
  qed
  have i: "\<not> prefix p buildImagesDir" "p \<noteq> buildImagesDir @ [n]"
    and f: "\<not> prefix p buildFontsDir" "p \<noteq> buildFontsDir @ [n]" for n
    using below[of "[''images'']"] below[of "[''images'', n]"]
      below[of "[''fonts'']"] below[of "[''fonts'', n]"]
    by (auto simp: buildImagesDir_def buildFontsDir_def path_join_def)
  have "lookup fs2 p = lookup fs p"
    by (rule after_images_frame[OF s(1,2)]) (use i in auto)
  moreover have "lookup fs' p = lookup fs2 p"
    by (rule copyDir_frame[OF s(3) af]) (use f in auto)
  ultimately show ?thesis by simp
qed

lemma script_Done:
  assumes "script fs = Done fs'"
  obtains fs0 fs1 fs2 fs3 fs4 fs5 where
    "ensureDir fs buildDir = Done fs0" "buildHTML fs0 = Done fs1" "buildCSS fs1 = Done fs2"
    "buildJS fs2 = Done fs3" "copyAssets fs3 = Done fs4"
    "rewriteFile indexHtml rewriteHTML fs4 = Done fs5"
    "rewriteFile stylesCss rewriteCSS fs5 = Done fs'"
  using assms
  unfolding script_def runBuild_def updateAssetPaths_def andThen_Done
    indexHtml_def[symmetric] stylesCss_def[symmetric]
  by blast

lemma script_effect:
  assumes "script fs = Done fs'"
  shows "sameInputs fs fs' \<and>
    (\<exists>h c j. mergedHTML fs = Inr h \<and> combinedCSS fs = Inr c \<and> combinedJS fs = Inr j
       \<and> lookup fs' indexHtml = Some (File (rewriteHTML h))
       \<and> lookup fs' stylesCss = Some (File (rewriteCSS c))
       \<and> lookup fs' scriptsJs = Some (File j))"
proof -
  from assms obtain fs0 fs1 fs2 fs3 fs4 fs5 where s:
    "ensureDir fs buildDir = Done fs0" "buildHTML fs0 = Done fs1" "buildCSS fs1 = Done fs2"
    "buildJS fs2 = Done fs3" "copyAssets fs3 = Done fs4"
    "rewriteFile indexHtml rewriteHTML fs4 = Done fs5"
    "rewriteFile stylesCss rewriteCSS fs5 = Done fs'"
    by (rule script_Done)
  from buildHTML_Done[OF s(2)] obtain h where
    h: "mergedHTML fs0 = Inr h" "writeFileSync fs0 indexHtml h = Inr fs1" by blast
  from buildCSS_Done[OF s(3)] obtain c where
    c: "combinedCSS fs1 = Inr c" "writeFileSync fs1 stylesCss c = Inr fs2" by blast
  from buildJS_Done[OF s(4)] obtain j where
    j: "combinedJS fs2 = Inr j" "writeFileSync fs2 scriptsJs j = Inr fs3" by blast
  have F0: "lookup fs0 p = lookup fs p" if "\<not> prefix p buildDir" for p
    using ensureDir_frame[OF s(1) that] .
  have F1: "lookup fs1 p = lookup fs0 p" if "\<not> prefix p indexHtml" for p
    using writeFileSync_frame[OF h(2) that] .
  have F2: "lookup fs2 p = lookup fs1 p" if "\<not> prefix p stylesCss" for p
    using writeFileSync_frame[OF c(2) that] .
  have F3: "lookup fs3 p = lookup fs2 p" if "\<not> prefix p scriptsJs" for p
    using writeFileSync_frame[OF j(2) that] .
  have F4: "lookup fs4 p = lookup fs3 p"
    if "\<not> prefix p buildAssetsDir" "\<not> prefix buildAssetsDir p" for p
    using copyAssets_frame[OF s(5) that] .
  have F5: "lookup fs5 p = lookup fs4 p" if "\<not> prefix p indexHtml" for p
    using rewriteFile_frame[OF s(6) that] .
  have F6: "lookup fs' p = lookup fs5 p" if "\<not> prefix p stylesCss" for p
    using rewriteFile_frame[OF s(7) that] .
  have out: "\<not> prefix p buildDir" "\<not> prefix p indexHtml" "\<not> prefix p stylesCss"
    "\<not> prefix p scriptsJs" "\<not> prefix p buildAssetsDir" "\<not> prefix buildAssetsDir p"
    if "p \<noteq> []" "hd p \<noteq> ''build''" for p
    using that by (cases p; simp add: output_paths buildAssetsDir_def)+
  have i0: "sameInputs fs fs0" by (rule sameInputsI) (simp add: F0 out)
  have i1: "sameInputs fs fs1" by (rule sameInputsI) (simp add: F0 F1 out)
  have i2: "sameInputs fs fs2" by (rule sameInputsI) (simp add: F0 F1 F2 out)
  have i': "sameInputs fs fs'"
    by (rule sameInputsI) (simp add: F0 F1 F2 F3 F4 F5 F6 out)
  have l1: "lookup fs1 indexHtml = Some (File h)" by (rule writeFileSync_written[OF h(2)])
  have l2: "lookup fs2 stylesCss = Some (File c)" by (rule writeFileSync_written[OF c(2)])
  have l3: "lookup fs3 scriptsJs = Some (File j)" by (rule writeFileSync_written[OF j(2)])
  have "lookup fs4 indexHtml = Some (File h)"
    using l1 F2[of indexHtml] F3[of indexHtml] F4[of indexHtml]
    by (simp add: output_paths buildAssetsDir_def)
  from rewriteFile_rewritten[OF s(6) this]
  have o1: "lookup fs' indexHtml = Some (File (rewriteHTML h))"
    using F6[of indexHtml] by (simp add: output_paths)
  have "lookup fs5 stylesCss = Some (File c)"
    using l2 F3[of stylesCss] F4[of stylesCss] F5[of stylesCss]
    by (simp add: output_paths buildAssetsDir_def)
  from rewriteFile_rewritten[OF s(7) this]
  have o2: "lookup fs' stylesCss = Some (File (rewriteCSS c))" .
  have o3: "lookup fs' scriptsJs = Some (File j)"
    using l3 F4[of scriptsJs] F5[of scriptsJs] F6[of scriptsJs]
    by (simp add: output_paths buildAssetsDir_def)
  from h(1) c(1) j(1) sameInputs_mergedHTML[OF i0] sameInputs_combinedCSS[OF i1]
    sameInputs_combinedJS[OF i2]
  have "mergedHTML fs = Inr h" "combinedCSS fs = Inr c" "combinedJS fs = Inr j"
    by simp_all
  with i' o1 o2 o3 show ?thesis by blast
qed

lemma exists_prefix: "existsSync fs (p @ q) \<Longrightarrow> existsSync fs p"
  by (auto simp: existsSync_def lookup_append split: option.splits)

lemma writeFileSync_exists_kept:
  assumes "writeFileSync fs q t = Inr fs'" and "existsSync fs p"
  shows "existsSync fs' p"
proof (cases "prefix p q")
  case True
  then obtain r where "q = p @ r" by (auto simp: prefix_def)
  with writeFileSync_written[OF assms(1)] have "existsSync fs' (p @ r)"
    by (simp add: existsSync_def)
  then show ?thesis by (rule exists_prefix)
next
  case False
  from writeFileSync_frame[OF assms(1) False] assms(2) show ?thesis
    by (simp add: existsSync_def)
qed

lemma isFile_exists: "isFile fs p \<Longrightarrow> existsSync fs p"
  by (auto simp: isFile_def existsSync_def split: option.splits)

lemma isDir_exists: "isDir fs p \<Longrightarrow> existsSync fs p"
  by (auto simp: isDir_def existsSync_def split: option.splits)

lemma ensureDir_exists: "ensureDir fs d = Done fs' \<Longrightarrow> existsSync fs' d"
  by (auto simp: ensureDir_def attempt_Done split: if_splits
      dest!: mkdirSync_made isDir_exists)

lemma ensureDir_exists_kept:
  assumes "ensureDir fs d = Done fs'" and "existsSync fs p"
  shows "existsSync fs' p"
proof (cases "prefix p d")
  case True
  then obtain r where "d = p @ r" by (auto simp: prefix_def)
  with ensureDir_exists[OF assms(1)] show ?thesis by (auto dest: exists_prefix)
next
  case False
  from ensureDir_frame[OF assms(1) False] assms(2) show ?thesis
    by (simp add: existsSync_def)
qed

lemma ensureDir_present: "existsSync fs d \<Longrightarrow> ensureDir fs d = Done fs"
  by (simp add: ensureDir_def)

lemma writeFileSync_over_file:
  "isFile fs p \<Longrightarrow> \<exists>fs'. writeFileSync fs p t = Inr fs'"
proof (induction fs p rule: lookup.induct)
  case (1 n)
  then show ?case by (cases n) (auto simp: isFile_def)
next
  case (2 d x p)
  then show ?case by (simp add: isFile_def)
next
  case (3 es x p)
  from "3.prems" obtain c where c: "map_of es x = Some c" "isFile c p"
    by (auto simp: isFile_def split: option.splits)
  from "3.IH"[OF c] c(1) show ?case by auto
qed

lemma forEach_copy_over_files:
  assumes "\<forall>n\<in>set names. isFile fs (src @ [n]) \<and> isFile fs (dst @ [n])"
    and "src \<noteq> []" "dst \<noteq> []" "hd src \<noteq> hd dst"
  shows "\<exists>fs'. forEach_fs (copyEntry src dst) names fs = Done fs'"
  using assms(1)
proof (induction names arbitrary: fs)
  case Nil
  then show ?case by simp
next
  case (Cons a names)
  from Cons.prems obtain d where d: "lookup fs (src @ [a]) = Some (File d)"
    by (auto simp: isFile_def split: option.splits node.splits)
  from Cons.prems have "isFile fs (dst @ [a])" by simp
  from writeFileSync_over_file[OF this, of d]
  obtain fs1 where w: "writeFileSync fs (dst @ [a]) d = Inr fs1" by blast
  with d have c: "copyEntry src dst a fs = Inr fs1"
    by (simp add: copyEntry_def copyFileSync_def readFileSync_def path_join_def)
  have "\<forall>n\<in>set names. isFile fs1 (src @ [n]) \<and> isFile fs1 (dst @ [n])"
  proof
    fix n assume n: "n \<in> set names"
    have "lookup fs1 (src @ [n]) = lookup fs (src @ [n])"
      by (rule copyEntry_frame[OF c]) (rule heads_apart[OF assms(2,3,4)])
    with Cons.prems n have 1: "isFile fs1 (src @ [n])" by (simp add: isFile_def)
    have 2: "isFile fs1 (dst @ [n])"
    proof (cases "n = a")
      case True
      with writeFileSync_written[OF w] show ?thesis by (simp add: isFile_def)
    next
      case False
      then have "lookup fs1 (dst @ [n]) = lookup fs (dst @ [n])"
        by (intro copyEntry_frame[OF c]) simp
      with Cons.prems n show ?thesis by (simp add: isFile_def)
    qed
    from 1 2 show "isFile fs1 (src @ [n]) \<and> isFile fs1 (dst @ [n])" ..
  qed
  from Cons.IH[OF this] c show ?case by simp
qed

lemma isDir_entryNames:
  "isDir fs p \<Longrightarrow> \<exists>entries. readdirSync fs p = Inr entries \<and> map fst entries = entryNames fs p"
  by (auto simp: isDir_def readdirSync_def entryNames_def split: option.splits node.splits)

lemma copyDir_again:
  assumes "copied fs src dst" and "src \<noteq> []" "dst \<noteq> []" "hd src \<noteq> hd dst"
  shows "\<exists>fs'. copyDir src dst fs = Done fs'"
proof (cases "existsSync fs src")
  case False
  then show ?thesis by (simp add: copyDir_def)
next
  case True
  with assms(1) have c: "isDir fs src" "existsSync fs dst"
    "\<forall>n\<in>set (entryNames fs src). isFile fs (src @ [n]) \<and> isFile fs (dst @ [n])"
    by (simp_all add: copied_def)
  from isDir_entryNames[OF c(1)] obtain entries where
    e: "readdirSync fs src = Inr entries" "map fst entries = entryNames fs src" by blast
  from forEach_copy_over_files[OF c(3) assms(2,3,4)] True c(2) e
  show ?thesis by (simp add: copyDir_def ensureDir_present)
qed

lemma copied_lookup:
  assumes "copied fs src dst"
    and "\<And>q. lookup fs' (src @ q) = lookup fs (src @ q)"
    and "\<And>q. q \<noteq> [] \<Longrightarrow> lookup fs' (dst @ q) = lookup fs (dst @ q)"
    and "existsSync fs dst \<Longrightarrow> existsSync fs' dst"
  shows "copied fs' src dst"
proof -
  have s: "lookup fs' src = lookup fs src" using assms(2)[of "[]"] by simp
  show ?thesis
    using assms(1) assms(2) assms(3) assms(4)
    unfolding copied_def existsSync_lookup[OF s] isDir_lookup[OF s] entryNames_lookup[OF s]
    by (simp add: isFile_def)
qed

lemma copyDir_source_kept:
  assumes "copyDir src dst fs = Done fs'" and "src \<noteq> []" "dst \<noteq> []" "hd src \<noteq> hd dst"
  shows "lookup fs' (src @ q) = lookup fs (src @ q)"
proof (rule copyDir_frame[OF assms])
  show "\<not> prefix (src @ q) dst"
    using heads_apart[OF assms(2,3,4), of q "[]"] by simp
  show "\<forall>n\<in>set (entryNames fs src). src @ q \<noteq> dst @ [n]"
  proof
    fix n
    from heads_apart[OF assms(2,3,4), of q "[n]"] show "src @ q \<noteq> dst @ [n]" by auto
  qed
qed

lemma copyDir_copied_after:
  assumes "copyDir src dst fs = Done fs'" and "src \<noteq> []" "dst \<noteq> []" "hd src \<noteq> hd dst"
  shows "copied fs' src dst"
proof -
  note same = copyDir_source_kept[OF assms]
  have s: "lookup fs' src = lookup fs src" using same[of "[]"] by simp
  show ?thesis
    unfolding copied_def
  proof (intro impI conjI ballI)
    assume "existsSync fs' src"
    with s have ex: "existsSync fs src" by (simp add: existsSync_def)
    with copyDir_Done[OF assms] obtain fs1 where
      f: "ensureDir fs dst = Done fs1"
      "forEach_fs (copyEntry src dst) (entryNames fs src) fs1 = Done fs'"
      by auto
    from assms(1) ex obtain entries where "readdirSync fs1 src = Inr entries"
      using f(1) by (auto simp: copyDir_def split: sum.splits)
    then have "isDir fs1 src"
      by (auto simp: readdirSync_def isDir_def split: option.splits node.splits)
    moreover have "lookup fs1 src = lookup fs src"
      by (rule ensureDir_frame[OF f(1)])
         (use heads_apart[OF assms(2,3,4), of "[]" "[]"] in simp)
    ultimately show "isDir fs' src" using s by (simp add: isDir_def)
    show "existsSync fs' dst"
    proof (cases "entryNames fs src")
      case Nil
      with f(2) have "fs' = fs1" by simp
      with ensureDir_exists[OF f(1)] show ?thesis by simp
    next
      case (Cons n ns)
      then have "n \<in> set (entryNames fs src)" by simp
      from copyDir_copied[OF assms this] have "existsSync fs' (dst @ [n])"
        by (auto simp: existsSync_def)
      then show ?thesis by (rule exists_prefix)
    qed
  next
    fix n assume "existsSync fs' src" and "n \<in> set (entryNames fs' src)"
    with s have n: "n \<in> set (entryNames fs src)" by (simp add: entryNames_def)
    from copyDir_copied[OF assms n] same[of "[n]"]
    show "isFile fs' (src @ [n])" "isFile fs' (dst @ [n])"
      by (auto simp: isFile_def)
  qed
qed

lemma copied_same:
  assumes "copied fs src dst"
    and "\<And>q. lookup fs' (src @ q) = lookup fs (src @ q)"
    and "\<And>q. lookup fs' (dst @ q) = lookup fs (dst @ q)"
  shows "copied fs' src dst"
  by (rule copied_lookup[OF assms(1) assms(2)])
     (use assms(3) assms(3)[of "[]"] in \<open>simp_all add: existsSync_def\<close>)

lemma forEach_copy_exists_kept:
  "forEach_fs (copyEntry src dst) names fs = Done fs' \<Longrightarrow> existsSync fs p \<Longrightarrow> existsSync fs' p"
proof (induction names arbitrary: fs)
  case Nil
  then show ?case by simp
next
  case (Cons a names)
  from Cons.prems(1) obtain fs1 where s: "copyEntry src dst a fs = Inr fs1"
    "forEach_fs (copyEntry src dst) names fs1 = Done fs'"
    by (auto split: sum.splits)
  from s(1) Cons.prems(2) have "existsSync fs1 p"
    by (auto simp: copyEntry_def copyFileSync_def split: sum.splits
        dest: writeFileSync_exists_kept)
  from Cons.IH[OF s(2) this] show ?case .
qed

lemma copyDir_exists_kept:
  assumes "copyDir src dst fs = Done fs'" and "src \<noteq> []" "dst \<noteq> []" "hd src \<noteq> hd dst"
    and "existsSync fs p"
  shows "existsSync fs' p"
  using copyDir_Done[OF assms(1,2,3,4)] assms(5)
  by (auto dest: ensureDir_exists_kept forEach_copy_exists_kept)

lemma built_write:
  assumes b: "built fs" and w: "writeFileSync fs (path_join buildDir [f]) t = Inr fs'"
    and f: "f \<in> {''index.html'', ''styles.css'', ''scripts.js''}"
  shows "built fs'"
proof -
  have F: "lookup fs' p = lookup fs p" if "\<not> prefix p (path_join buildDir [f])" for p
    using writeFileSync_frame[OF w that] .
  have o: "isFile fs' (path_join buildDir [g])" if "isFile fs (path_join buildDir [g])" for g
  proof (cases "g = f")
    case True
    with writeFileSync_written[OF w] show ?thesis by (simp add: isFile_def)
  next
    case False
    then have "lookup fs' (path_join buildDir [g]) = lookup fs (path_join buildDir [g])"
      by (intro F) (simp add: buildDir_def path_join_def)
    with that show ?thesis by (simp add: isFile_def)
  qed
  have a: "f \<noteq> ''assets''" using f by auto
  have 1: "lookup fs' (imagesDir @ q) = lookup fs (imagesDir @ q)"
    and 2: "lookup fs' (fontsDir @ q) = lookup fs (fontsDir @ q)"
    and 3: "lookup fs' (buildImagesDir @ q) = lookup fs (buildImagesDir @ q)"
    and 4: "lookup fs' (buildFontsDir @ q) = lookup fs (buildFontsDir @ q)"
    and 5: "lookup fs' buildAssetsDir = lookup fs buildAssetsDir" for q
    using a by (auto intro!: F simp: asset_dirs)
  from b o 1 2 3 4 5 show ?thesis
    unfolding built_def indexHtml_def stylesCss_def scriptsJs_def
    by (auto intro: copied_same simp: existsSync_def)
qed

lemma copyAssets_built:
  assumes "copyAssets fs = Done fs'"
  shows "existsSync fs' buildAssetsDir \<and> copied fs' imagesDir buildImagesDir
    \<and> copied fs' fontsDir buildFontsDir"
proof -
  from assms obtain fs1 fs2 where s: "ensureDir fs buildAssetsDir = Done fs1"
    "copyDir imagesDir buildImagesDir fs1 = Done fs2"
    "copyDir fontsDir buildFontsDir fs2 = Done fs'"
    by (rule copyAssets_Done)
  have ai: "imagesDir \<noteq> []" "buildImagesDir \<noteq> []" "hd imagesDir \<noteq> hd buildImagesDir"
    and af: "fontsDir \<noteq> []" "buildFontsDir \<noteq> []" "hd fontsDir \<noteq> hd buildFontsDir"
    by (simp_all add: asset_dirs)
  have "existsSync fs' buildAssetsDir"
    by (intro copyDir_exists_kept[OF s(3) af] copyDir_exists_kept[OF s(2) ai]
        ensureDir_exists[OF s(1)])
  moreover have "copied fs' imagesDir buildImagesDir"
  proof (rule copied_same[OF copyDir_copied_after[OF s(2) ai]])
    fix q
    show "lookup fs' (imagesDir @ q) = lookup fs2 (imagesDir @ q)"
      by (rule copyDir_frame[OF s(3) af]) (simp_all add: asset_dirs)
    show "lookup fs' (buildImagesDir @ q) = lookup fs2 (buildImagesDir @ q)"
      by (rule copyDir_frame[OF s(3) af]) (simp_all add: asset_dirs)
  qed
  moreover have "copied fs' fontsDir buildFontsDir"
    by (rule copyDir_copied_after[OF s(3) af])
  ultimately show ?thesis by simp
qed

lemma copyAssets_again:
  assumes "existsSync fs buildAssetsDir" and "copied fs imagesDir buildImagesDir"
    and "copied fs fontsDir buildFontsDir"
  shows "\<exists>fs'. copyAssets fs = Done fs'"
proof -
  have ai: "imagesDir \<noteq> []" "buildImagesDir \<noteq> []" "hd imagesDir \<noteq> hd buildImagesDir"
    and af: "fontsDir \<noteq> []" "buildFontsDir \<noteq> []" "hd fontsDir \<noteq> hd buildFontsDir"
    by (simp_all add: asset_dirs)
  from copyDir_again[OF assms(2) ai] obtain fs1 where
    s1: "copyDir imagesDir buildImagesDir fs = Done fs1" by blast
  have "copied fs1 fontsDir buildFontsDir"
  proof (rule copied_same[OF assms(3)])
    fix q
    show "lookup fs1 (fontsDir @ q) = lookup fs (fontsDir @ q)"
      by (rule copyDir_frame[OF s1 ai]) (simp_all add: asset_dirs)
    show "lookup fs1 (buildFontsDir @ q) = lookup fs (buildFontsDir @ q)"
      by (rule copyDir_frame[OF s1 ai]) (simp_all add: asset_dirs)
  qed
  from copyDir_again[OF this af] obtain fs2 where
    "copyDir fontsDir buildFontsDir fs1 = Done fs2" by blast
  with s1 assms(1) show ?thesis by (simp add: copyAssets_def ensureDir_present)
qed

lemma writeFileSync_parent:
  "writeFileSync fs (p @ [x]) t = Inr fs' \<Longrightarrow> isDir fs p"
proof (induction fs p arbitrary: fs' rule: lookup.induct)
  case (1 n)
  then show ?case by (cases n) (auto simp: isDir_def)
next
  case (2 d y p)
  then show ?case by simp
next
  case (3 es y p)
  show ?case
  proof (cases "map_of es y")
    case None
    with "3.prems" show ?thesis by (auto split: if_splits)
  next
    case (Some c)
    with "3.prems" obtain c' where "writeFileSync c (p @ [x]) t = Inr c'"
      by (auto split: sum.splits)
    from "3.IH"[OF Some this] Some show ?thesis by (simp add: isDir_def)
  qed
qed

lemma sameInputs_write:
  assumes "writeFileSync fs (path_join buildDir [f]) t = Inr fs'"
  shows "sameInputs fs fs'"
proof (rule sameInputsI)
  fix p :: path assume "p \<noteq> []" "hd p \<noteq> ''build''"
  then have "\<not> prefix p (path_join buildDir [f])"
    by (cases p) (simp_all add: buildDir_def path_join_def)
  from writeFileSync_frame[OF assms this] show "lookup fs' p = lookup fs p" .
qed

lemma runBuild_script:
  assumes "runBuild fs = Done fs'"
  shows "script fs = Done fs'"
proof -
  from assms obtain fs1 where "buildHTML fs = Done fs1"
    by (auto simp: runBuild_def andThen_Done)
  from buildHTML_Done[OF this] obtain h where "writeFileSync fs indexHtml h = Inr fs1"
    by blast
  then have "isDir fs buildDir"
    using writeFileSync_parent[of fs buildDir "''index.html''" h fs1]
    by (simp add: indexHtml_def path_join_def)
  then have "existsSync fs buildDir" by (rule isDir_exists)
  with assms show ?thesis by (simp add: script_def ensureDir_present)
qed

lemma script_runBuild:
  "existsSync fs buildDir \<Longrightarrow> script fs = runBuild fs"
  by (simp add: script_def ensureDir_present)

lemma script_built:
  assumes "script fs = Done fs'"
  shows "built fs'"
proof -
  from assms obtain fs0 fs1 fs2 fs3 fs4 fs5 where s:
    "ensureDir fs buildDir = Done fs0" "buildHTML fs0 = Done fs1" "buildCSS fs1 = Done fs2"
    "buildJS fs2 = Done fs3" "copyAssets fs3 = Done fs4"
    "rewriteFile indexHtml rewriteHTML fs4 = Done fs5"
    "rewriteFile stylesCss rewriteCSS fs5 = Done fs'"
    by (rule script_Done)
  from script_effect[OF assms] have o: "isFile fs' indexHtml" "isFile fs' stylesCss"
    "isFile fs' scriptsJs"
    by (auto simp: isFile_def)
  have F: "lookup fs' p = lookup fs4 p"
    if "\<not> prefix p indexHtml" "\<not> prefix p stylesCss" for p
    using rewriteFile_frame[OF s(6) that(1)] rewriteFile_frame[OF s(7) that(2)] by simp
  have 1: "lookup fs' (imagesDir @ q) = lookup fs4 (imagesDir @ q)"
    and 2: "lookup fs' (fontsDir @ q) = lookup fs4 (fontsDir @ q)"
    and 3: "lookup fs' (buildImagesDir @ q) = lookup fs4 (buildImagesDir @ q)"
    and 4: "lookup fs' (buildFontsDir @ q) = lookup fs4 (buildFontsDir @ q)"
    and 5: "lookup fs' buildAssetsDir = lookup fs4 buildAssetsDir" for q
    by (auto intro!: F simp: asset_dirs output_paths)
  from copyAssets_built[OF s(5)] o 1 2 3 4 5 show ?thesis
    unfolding built_def by (auto intro: copied_same simp: existsSync_def)
qed

lemma script_again:
  assumes b: "built fs" and r: "mergedHTML fs = Inr h" "combinedCSS fs = Inr c"
    "combinedJS fs = Inr j"
  shows "\<exists>fs'. script fs = Done fs'"
proof -
  from b have "existsSync fs (buildDir @ [''index.html''])"
    by (auto simp: built_def indexHtml_def path_join_def dest: isFile_exists)
  then have e: "existsSync fs buildDir" by (rule exists_prefix)
  from b writeFileSync_over_file[of fs indexHtml h] obtain fs1 where
    w1: "writeFileSync fs indexHtml h = Inr fs1" by (auto simp: built_def)
  have b1: "built fs1"
    by (rule built_write[OF b w1[unfolded indexHtml_def]]) simp
  have i1: "sameInputs fs fs1" by (rule sameInputs_write[OF w1[unfolded indexHtml_def]])
  from b1 writeFileSync_over_file[of fs1 stylesCss c] obtain fs2 where
    w2: "writeFileSync fs1 stylesCss c = Inr fs2" by (auto simp: built_def)
  have b2: "built fs2"
    by (rule built_write[OF b1 w2[unfolded stylesCss_def]]) simp
  have i2: "sameInputs fs1 fs2" by (rule sameInputs_write[OF w2[unfolded stylesCss_def]])
  from b2 writeFileSync_over_file[of fs2 scriptsJs j] obtain fs3 where
    w3: "writeFileSync fs2 scriptsJs j = Inr fs3" by (auto simp: built_def)
  have b3: "built fs3"
    by (rule built_write[OF b2 w3[unfolded scriptsJs_def]]) simp
  from b3 copyAssets_again[of fs3] obtain fs4 where
    s4: "copyAssets fs3 = Done fs4" by (auto simp: built_def)
  have k: "lookup fs4 p = lookup fs3 p" if "p \<in> {indexHtml, stylesCss}" for p
    by (rule copyAssets_frame[OF s4]) (use that in \<open>auto simp: output_paths buildAssetsDir_def\<close>)
  from b3 k have f4: "isFile fs4 indexHtml" "isFile fs4 stylesCss"
    by (simp_all add: built_def isFile_def)
  then obtain t where t: "readFileSync fs4 indexHtml = Inr t"
    by (auto simp: isFile_def readFileSync_Inr split: option.splits node.splits)
  from writeFileSync_over_file[OF f4(1), of "rewriteHTML t"] obtain fs5 where
    w5: "writeFileSync fs4 indexHtml (rewriteHTML t) = Inr fs5" by blast
  have "lookup fs5 stylesCss = lookup fs4 stylesCss"
    by (rule writeFileSync_frame[OF w5]) (simp add: output_paths)
  with f4(2) have f5: "isFile fs5 stylesCss" by (simp add: isFile_def)
  then obtain u where u: "readFileSync fs5 stylesCss = Inr u"
    by (auto simp: isFile_def readFileSync_Inr split: option.splits node.splits)
  from writeFileSync_over_file[OF f5, of "rewriteCSS u"] obtain fs6 where
    w6: "writeFileSync fs5 stylesCss (rewriteCSS u) = Inr fs6" by blast
  have h1: "buildHTML fs = Done fs1"
    using r(1) w1 by (simp add: buildHTML_def indexHtml_def attempt_def)
  have h2: "buildCSS fs1 = Done fs2"
    using r(2) w2 sameInputs_combinedCSS[OF i1]
    by (simp add: buildCSS_def stylesCss_def attempt_def)
  have h3: "buildJS fs2 = Done fs3"
    using r(3) w3 sameInputs_combinedJS[OF sameInputs_trans[OF i1 i2]]
    by (simp add: buildJS_def scriptsJs_def attempt_def)
  have h5: "rewriteFile indexHtml rewriteHTML fs4 = Done fs5"
    using t w5 isFile_exists[OF f4(1)] by (simp add: rewriteFile_def attempt_def)
  have h6: "rewriteFile stylesCss rewriteCSS fs5 = Done fs6"
    using u w6 isFile_exists[OF f5] by (simp add: rewriteFile_def attempt_def)
  from e h1 h2 h3 s4 h5 h6 have "script fs = Done fs6"
    by (simp add: script_def ensureDir_present runBuild_def updateAssetPaths_def
        indexHtml_def[symmetric] stylesCss_def[symmetric])
  then show ?thesis ..
qed

text \<open>
  C5. When a run of \<open>runBuild\<close> completes, a second run on the file system that the
  first one left behind (the same template, components and core files, listed in the same
  order) completes as well, and \<open>index.html\<close>, \<open>styles.css\<close> and \<open>scripts.js\<close> hold
  after the second run exactly the texts they held after the first.
\<close>

theorem runBuild_twice_same_outputs:
  assumes "runBuild fs = Done fs1"
  shows "\<exists>fs2 html css js. runBuild fs1 = Done fs2
     \<and> readFileSync fs1 indexHtml = Inr html \<and> readFileSync fs2 indexHtml = Inr html
     \<and> readFileSync fs1 stylesCss = Inr css \<and> readFileSync fs2 stylesCss = Inr css
     \<and> readFileSync fs1 scriptsJs = Inr js \<and> readFileSync fs2 scriptsJs = Inr js"
proof -
  note s1 = runBuild_script[OF assms]
  from script_effect[OF s1] obtain h c j where
    a: "sameInputs fs fs1" "mergedHTML fs = Inr h" "combinedCSS fs = Inr c" "combinedJS fs = Inr j"
    "lookup fs1 indexHtml = Some (File (rewriteHTML h))"
    "lookup fs1 stylesCss = Some (File (rewriteCSS c))"
    "lookup fs1 scriptsJs = Some (File j)"
    by blast
  have r: "mergedHTML fs1 = Inr h" "combinedCSS fs1 = Inr c" "combinedJS fs1 = Inr j"
    using a sameInputs_mergedHTML[OF a(1)] sameInputs_combinedCSS[OF a(1)]
      sameInputs_combinedJS[OF a(1)] by simp_all
  from script_again[OF script_built[OF s1] r] obtain fs2 where s2: "script fs1 = Done fs2" ..
  from a(5) have "existsSync fs1 (buildDir @ [''index.html''])"
    by (simp add: existsSync_def indexHtml_def path_join_def)
  then have "existsSync fs1 buildDir" by (rule exists_prefix)
  with s2 have r2: "runBuild fs1 = Done fs2" by (simp add: script_runBuild)
  from script_effect[OF s2] r have
    b: "lookup fs2 indexHtml = Some (File (rewriteHTML h))"
    "lookup fs2 stylesCss = Some (File (rewriteCSS c))"
    "lookup fs2 scriptsJs = Some (File j)"
    by auto
  from r2 a b show ?thesis by (auto simp: readFileSync_Inr)
qed

theorem runBuild_twice_same_outputs_witness:
  "\<exists>fs1 fs2. runBuild ex_fs = Done fs1 \<and> runBuild fs1 = Done fs2
     \<and> readFileSync fs1 indexHtml = Inr ''<h1>hi</h1><!-- Z -->''
     \<and> readFileSync fs2 indexHtml = Inr ''<h1>hi</h1><!-- Z -->''
     \<and> readFileSync fs2 stylesCss = readFileSync fs1 stylesCss
     \<and> readFileSync fs2 scriptsJs = readFileSync fs1 scriptsJs"
proof -
  have "case runBuild ex_fs of Done fs1 \<Rightarrow> True | Threw e fs1 \<Rightarrow> False"
    by code_simp
  then obtain fs1 where d: "runBuild ex_fs = Done fs1"
    by (cases "runBuild ex_fs") auto
  have "outputText (runBuild ex_fs) indexHtml = Inr ''<h1>hi</h1><!-- Z -->''"
    by code_simp
  with d have o: "readFileSync fs1 indexHtml = Inr ''<h1>hi</h1><!-- Z -->''"
    by simp
  from runBuild_twice_same_outputs [OF d] o d show ?thesis
    by metis
qed

section \<open>Missing optional files\<close>






section \<open>The rewriting of the asset paths\<close>

lemma find_append_absent:
  "find P ys = None \<Longrightarrow> find P (xs @ ys) = find P xs"
  by (induction xs) simp_all

lemma sublist_of_drop:
  assumes "sublist q (drop n xs)"
  shows "sublist q xs"
proof -
  from assms obtain a b where "drop n xs = a @ q @ b" by (auto simp: sublist_def)
  moreover have "xs = take n xs @ drop n xs" by simp
  ultimately have "xs = (take n xs @ a) @ q @ b" by simp
  then show ?thesis unfolding sublist_def by blast
qed

lemma substitute_all_restrict:
  assumes "\<forall>p\<in>set others. \<not> sublist p s"
  shows "substitute_all (literals @ others) replacement s =
         substitute_all literals replacement s"
  using assms
proof (induction literals replacement s rule: substitute_all.induct)
  case (1 literals replacement)
  show ?case by simp
next
  case (2 literals replacement c s)
  have none: "find (\<lambda>p. p \<noteq> [] \<and> prefix p (c # s)) others = None"
    using "2.prems" by (auto simp: find_None_iff dest: prefix_imp_sublist simp del: prefix_code)
  note f = find_append_absent[OF none, of literals]
  show ?case
  proof (cases "find (\<lambda>p. p \<noteq> [] \<and> prefix p (c # s)) literals")
    case None
    have "\<forall>p\<in>set others. \<not> sublist p s"
      using "2.prems" by (auto simp: sublist_Cons_right)
    from "2.IH"(1)[OF None this] None f show ?thesis by simp
  next
    case (Some p)
    have "\<forall>q\<in>set others. \<not> sublist q (drop (length p) (c # s))"
    proof
      fix q
      assume q: "q \<in> set others"
      show "\<not> sublist q (drop (length p) (c # s))"
      proof
        assume "sublist q (drop (length p) (c # s))"
        then have "sublist q (c # s)" by (rule sublist_of_drop)
        with "2.prems" q show False by blast
      qed
    qed
    from "2.IH"(2)[OF Some this] Some f show ?thesis by simp
  qed
qed

lemma prefix_substitute_all:
  assumes "replacement \<noteq> []" and "hd replacement \<notin> set q"
    and "prefix q (substitute_all literals replacement s)"
  shows "prefix q s"
  using assms
proof (induction literals replacement s arbitrary: q rule: substitute_all.induct)
  case (1 literals replacement)
  then show ?case by simp
next
  case (2 literals replacement c s)
  show ?case
  proof (cases "find (\<lambda>p. p \<noteq> [] \<and> prefix p (c # s)) literals")
    case None
    with "2.prems"(3) have p: "prefix q (c # substitute_all literals replacement s)"
      by simp
    show ?thesis
    proof (cases q)
      case Nil
      then show ?thesis by simp
    next
      case (Cons a q')
      with p have a: "a = c" and p': "prefix q' (substitute_all literals replacement s)"
        by simp_all
      from "2.prems"(2) Cons have "hd replacement \<notin> set q'" by simp
      from "2.IH"(1)[OF None "2.prems"(1) this p'] a Cons show ?thesis by simp
    qed
  next
    case (Some p)
    with "2.prems"(3) have p: "prefix q
        (replacement @ substitute_all literals replacement (drop (length p) (c # s)))"
      by simp
    obtain r rs where "replacement = r # rs"
      using "2.prems"(1) by (cases replacement) auto
    with p "2.prems"(2) have "q = []" by (cases q) auto
    then show ?thesis by simp
  qed
qed

lemma substitute_all_brings_not:
  assumes "q \<noteq> []" and "replacement \<noteq> []"
    and "hd replacement \<notin> set (tl q)"
    and "\<not> sublist q replacement"
    and "\<forall>q1\<in>set (prefixes q). q1 = [] \<or> \<not> suffix q1 replacement"
    and "\<not> sublist q s"
  shows "\<not> sublist q (substitute_all literals replacement s)"
  using assms
proof (induction literals replacement s rule: substitute_all.induct)
  case (1 literals replacement)
  then show ?case by simp
next
  case (2 literals replacement c s)
  note q = "2.prems"(1) and r = "2.prems"(2) and tl = "2.prems"(3)
    and inside = "2.prems"(4) and across = "2.prems"(5) and absent = "2.prems"(6)
  show ?case
  proof (cases "find (\<lambda>p. p \<noteq> [] \<and> prefix p (c # s)) literals")
    case None
    from absent have s: "\<not> sublist q s" by (auto simp: sublist_Cons_right)
    note ih = "2.IH"(1)[OF None q r tl inside across s]
    have "\<not> prefix q (c # substitute_all literals replacement s)"
    proof
      assume p: "prefix q (c # substitute_all literals replacement s)"
      from q obtain a q' where qq: "q = a # q'" by (cases q) auto
      with p have a: "a = c" and p': "prefix q' (substitute_all literals replacement s)"
        by simp_all
      from tl qq have "hd replacement \<notin> set q'" by simp
      from prefix_substitute_all[OF r this p'] have "prefix q' s" .
      with a qq have "prefix q (c # s)" by simp
      then have "sublist q (c # s)" by (rule prefix_imp_sublist)
      with absent show False by simp
    qed
    with ih None show ?thesis by (simp add: sublist_Cons_right)
  next
    case (Some p)
    define rest where "rest = drop (length p) (c # s)"
    have "\<not> sublist q rest"
    proof
      assume "sublist q rest"
      then have "sublist q (c # s)"
        unfolding rest_def by (rule sublist_of_drop)
      with absent show False by simp
    qed
    note ih = "2.IH"(2)[OF Some q r tl inside across this[unfolded rest_def]]
    have "\<not> sublist q (replacement @ substitute_all literals replacement rest)"
    proof
      assume "sublist q (replacement @ substitute_all literals replacement rest)"
      then consider (a) "sublist q replacement"
        | (b) "sublist q (substitute_all literals replacement rest)"
        | (c) q1 q2 where "q = q1 @ q2" "suffix q1 replacement"
            "prefix q2 (substitute_all literals replacement rest)"
        unfolding sublist_append by blast
      then show False
      proof cases
        case a
        with inside show False by simp
      next
        case b
        with ih show False by (simp add: rest_def)
      next
        case c
        show False
        proof (cases "q1 = []")
          case True
          with c have "prefix q (substitute_all literals replacement rest)" by simp
          then have "sublist q (substitute_all literals replacement rest)"
            by (rule prefix_imp_sublist)
          with ih show False by (simp add: rest_def)
        next
          case False
          from c(1) have "prefix q1 q" by simp
          then have "q1 \<in> set (prefixes q)" by (simp add: in_set_prefixes)
          with across False c(2) show False by blast
        qed
      qed
    qed
    with Some show ?thesis by (simp add: rest_def)
  qed
qed

lemma css_url_literals_split:
  "css_url_literals kind = [css_url_quoted kind] @ css_url_unquoted kind"
  by (simp add: css_url_literals_def css_url_quoted_def css_url_unquoted_def)

lemma unquoted_fonts_not_brought:
  assumes "q \<in> set (css_url_unquoted ''fonts'')" and "\<not> sublist q s"
  shows "\<not> sublist q
     (substitute_all literals (''url('' @ [squote] @ ''build/assets/images/'') s)"
proof -
  have "list_all (\<lambda>q. q \<noteq> []
      \<and> hd (''url('' @ [squote] @ ''build/assets/images/'') \<notin> set (tl q)
      \<and> \<not> sublist q (''url('' @ [squote] @ ''build/assets/images/'')
      \<and> list_all (\<lambda>q1. q1 = [] \<or> \<not> suffix q1 (''url('' @ [squote] @ ''build/assets/images/''))
          (prefixes q))
     (css_url_unquoted ''fonts'')"
    by code_simp
  with assms(1) have c: "q \<noteq> []"
      "hd (''url('' @ [squote] @ ''build/assets/images/'') \<notin> set (tl q)"
      "\<not> sublist q (''url('' @ [squote] @ ''build/assets/images/'')"
      "\<forall>q1\<in>set (prefixes q). q1 = [] \<or> \<not> suffix q1 (''url('' @ [squote] @ ''build/assets/images/'')"
    unfolding list_all_iff by blast+
  show ?thesis
    by (rule substitute_all_brings_not[OF c(1) _ c(2) c(3) c(4) assms(2)]) simp
qed

lemma rewriteCSS_quoted:
  assumes "\<forall>p\<in>set (css_url_unquoted ''images'' @ css_url_unquoted ''fonts''). \<not> sublist p css"
  shows "rewriteCSS css =
     substitute_all [css_url_quoted ''fonts''] (''url('' @ [squote] @ ''build/assets/fonts/'')
       (substitute_all [css_url_quoted ''images'']
          (''url('' @ [squote] @ ''build/assets/images/'') css)"
proof -
  from assms have i: "\<forall>p\<in>set (css_url_unquoted ''images''). \<not> sublist p css"
    and f: "\<forall>p\<in>set (css_url_unquoted ''fonts''). \<not> sublist p css"
    by simp_all
  have f': "\<forall>p\<in>set (css_url_unquoted ''fonts''). \<not> sublist p
      (substitute_all [css_url_quoted ''images'']
          (''url('' @ [squote] @ ''build/assets/images/'') css)"
    using f unquoted_fonts_not_brought by blast
  show ?thesis
    unfolding rewriteCSS_literals css_url_literals_split
      substitute_all_restrict[OF i] substitute_all_restrict[OF f'] ..
qed

lemma rewriteFile_ok:
  assumes "lookup fs file = Some (File t)"
  shows "\<exists>fs'. rewriteFile file rewrite fs = Done fs'"
proof -
  from assms have f: "isFile fs file" by (simp add: isFile_def)
  from writeFileSync_over_file[OF f] obtain fs'
    where "writeFileSync fs file (rewrite t) = Inr fs'" by blast
  moreover from assms have "readFileSync fs file = Inr t" by (simp add: readFileSync_Inr)
  ultimately show ?thesis
    using isFile_exists[OF f] by (simp add: rewriteFile_def attempt_def)
qed

lemma updateAssetPaths_files:
  assumes h: "lookup fs indexHtml = Some (File html)"
    and c: "lookup fs stylesCss = Some (File css)"
  shows "\<exists>fs'. updateAssetPaths fs = Done fs'
     \<and> lookup fs' indexHtml = Some (File (rewriteHTML html))
     \<and> lookup fs' stylesCss = Some (File (rewriteCSS css))
     \<and> (\<forall>p. \<not> prefix p indexHtml \<and> \<not> prefix p stylesCss \<longrightarrow> lookup fs' p = lookup fs p)"
proof -
  from rewriteFile_ok[OF h] obtain fs1
    where 1: "rewriteFile indexHtml rewriteHTML fs = Done fs1" by blast
  have ns: "\<not> prefix stylesCss indexHtml" and nh: "\<not> prefix indexHtml stylesCss"
    by (simp_all add: output_paths)
  from rewriteFile_frame[OF 1 ns] c have c1: "lookup fs1 stylesCss = Some (File css)"
    by simp
  from rewriteFile_ok[OF c1] obtain fs'
    where 2: "rewriteFile stylesCss rewriteCSS fs1 = Done fs'" by blast
  have "updateAssetPaths fs = Done fs'"
    using 1 2 by (simp add: updateAssetPaths_def indexHtml_def stylesCss_def)
  moreover have "lookup fs' indexHtml = Some (File (rewriteHTML html))"
    using rewriteFile_frame[OF 2 nh] rewriteFile_rewritten[OF 1 h] by simp
  moreover have "lookup fs' stylesCss = Some (File (rewriteCSS css))"
    by (rule rewriteFile_rewritten[OF 2 c1])
  moreover have "lookup fs' p = lookup fs p"
    if "\<not> prefix p indexHtml \<and> \<not> prefix p stylesCss" for p
    using rewriteFile_frame[OF 2, of p] rewriteFile_frame[OF 1, of p] that by simp
  ultimately show ?thesis by blast
qed

text \<open>
  C3 (as amended). Let \<open>index.html\<close> and \<open>styles.css\<close> of the build directory be files
  of well-formed UTF-8, and let the CSS hold no \<open>url(\<close> that is followed by a double
  quote or by nothing and then by \<open>core/assets/images/\<close> or \<open>core/assets/fonts/\<close>.
  Then \<open>updateAssetPaths\<close> completes and rewrites the two files by a global,
  case-sensitive substitution of literal prefixes: in the HTML, of
  \<open>src="core/assets/images/\<close> and then of \<open>href="core/assets/images/\<close>; in the CSS, of
  \<open>url('core/assets/images/\<close> and then of \<open>url('core/assets/fonts/\<close>; each by the same
  text with \<open>build\<close> in place of \<open>core\<close>. A file in which none of its literal prefixes
  occurs keeps its text, and nothing else in the file system is changed.
\<close>

theorem updateAssetPaths_substitutes_literal_prefixes:
  assumes "lookup fs indexHtml = Some (File html)" and "utf8Text html"
    and "lookup fs stylesCss = Some (File css)" and "utf8Text css"
    and "\<forall>p\<in>set (css_url_unquoted ''images'' @ css_url_unquoted ''fonts''). \<not> sublist p css"
  shows "\<exists>fs'. updateAssetPaths fs = Done fs'
     \<and> lookup fs' indexHtml = Some (File
         (substitute_all html_href_literals (''href='' @ [dquote] @ ''build/assets/images/'')
           (substitute_all html_src_literals (''src='' @ [dquote] @ ''build/assets/images/'')
              html)))
     \<and> lookup fs' stylesCss = Some (File
         (substitute_all [css_url_quoted ''fonts''] (''url('' @ [squote] @ ''build/assets/fonts/'')
           (substitute_all [css_url_quoted ''images'']
              (''url('' @ [squote] @ ''build/assets/images/'') css)))
     \<and> ((\<forall>p\<in>set (html_src_literals @ html_href_literals). \<not> sublist p html) \<longrightarrow>
          lookup fs' indexHtml = Some (File html))
     \<and> (\<not> sublist (css_url_quoted ''images'') css \<and> \<not> sublist (css_url_quoted ''fonts'') css \<longrightarrow>
          lookup fs' stylesCss = Some (File css))
     \<and> (\<forall>p. \<not> prefix p indexHtml \<and> \<not> prefix p stylesCss \<longrightarrow> lookup fs' p = lookup fs p)"
proof -
  from updateAssetPaths_files[OF assms(1,3)] obtain fs'
    where d: "updateAssetPaths fs = Done fs'"
      and h: "lookup fs' indexHtml = Some (File (rewriteHTML html))"
      and c: "lookup fs' stylesCss = Some (File (rewriteCSS css))"
      and f: "\<forall>p. \<not> prefix p indexHtml \<and> \<not> prefix p stylesCss \<longrightarrow> lookup fs' p = lookup fs p"
    by blast
  note c' = c[unfolded rewriteCSS_quoted[OF assms(5)]]
  note h' = h[unfolded rewriteHTML_literals]
  have h0: "lookup fs' indexHtml = Some (File html)"
    if "\<forall>p\<in>set (html_src_literals @ html_href_literals). \<not> sublist p html"
    using that h' by (simp add: substitute_all_absent)
  have c0: "lookup fs' stylesCss = Some (File css)"
    if "\<not> sublist (css_url_quoted ''images'') css \<and> \<not> sublist (css_url_quoted ''fonts'') css"
    using that c' by (simp add: substitute_all_absent)
  from d h' c' h0 c0 f show ?thesis by blast
qed

theorem updateAssetPaths_substitutes_literal_prefixes_witness:
  "lookup rewrite_fs indexHtml = Some (File
       (''<img src='' @ [dquote] @ ''core/assets/images/logo.png'' @ [dquote]
          @ ''><a href='' @ [dquote] @ ''core/assets/images-extra/x'' @ [dquote]
          @ ''><link href='' @ [dquote] @ ''core/assets/images/i.ico'' @ [dquote] @ ''>''))
   \<and> utf8Text
       (''<img src='' @ [dquote] @ ''core/assets/images/logo.png'' @ [dquote]
          @ ''><a href='' @ [dquote] @ ''core/assets/images-extra/x'' @ [dquote]
          @ ''><link href='' @ [dquote] @ ''core/assets/images/i.ico'' @ [dquote] @ ''>'')
   \<and> lookup rewrite_fs stylesCss = Some (File
       (''a{background:url('' @ [squote] @ ''core/assets/images/x.png'' @ [squote]
          @ '')}b{src:url('' @ [squote] @ ''core/assets/fonts/f.woff'' @ [squote]
          @ '')}c{background:url(core/assets/images-extra/y.png)}''))
   \<and> utf8Text
       (''a{background:url('' @ [squote] @ ''core/assets/images/x.png'' @ [squote]
          @ '')}b{src:url('' @ [squote] @ ''core/assets/fonts/f.woff'' @ [squote]
          @ '')}c{background:url(core/assets/images-extra/y.png)}'')
   \<and> list_all (\<lambda>p. \<not> sublist p
       (''a{background:url('' @ [squote] @ ''core/assets/images/x.png'' @ [squote]
          @ '')}b{src:url('' @ [squote] @ ''core/assets/fonts/f.woff'' @ [squote]
          @ '')}c{background:url(core/assets/images-extra/y.png)}''))
       (css_url_unquoted ''images'' @ css_url_unquoted ''fonts'')
   \<and> outputText (updateAssetPaths rewrite_fs) indexHtml = Inr
       (''<img src='' @ [dquote] @ ''build/assets/images/logo.png'' @ [dquote]
          @ ''><a href='' @ [dquote] @ ''core/assets/images-extra/x'' @ [dquote]
          @ ''><link href='' @ [dquote] @ ''build/assets/images/i.ico'' @ [dquote] @ ''>'')
   \<and> outputText (updateAssetPaths rewrite_fs) stylesCss = Inr
       (''a{background:url('' @ [squote] @ ''build/assets/images/x.png'' @ [squote]
          @ '')}b{src:url('' @ [squote] @ ''build/assets/fonts/f.woff'' @ [squote]
          @ '')}c{background:url(core/assets/images-extra/y.png)}'')"
proof -
  define html where "html =
       ''<img src='' @ [dquote] @ ''core/assets/images/logo.png'' @ [dquote]
          @ ''><a href='' @ [dquote] @ ''core/assets/images-extra/x'' @ [dquote]
          @ ''><link href='' @ [dquote] @ ''core/assets/images/i.ico'' @ [dquote] @ ''>''"
  define css where "css =
       ''a{background:url('' @ [squote] @ ''core/assets/images/x.png'' @ [squote]
          @ '')}b{src:url('' @ [squote] @ ''core/assets/fonts/f.woff'' @ [squote]
          @ '')}c{background:url(core/assets/images-extra/y.png)}''"
  have h1: "lookup rewrite_fs indexHtml = Some (File html)"
    unfolding html_def by code_simp
  have h2: "utf8Text html"
    unfolding html_def by code_simp
  have h3: "lookup rewrite_fs stylesCss = Some (File css)"
    unfolding css_def by code_simp
  have h4: "utf8Text css"
    unfolding css_def by code_simp
  have h5: "list_all (\<lambda>p. \<not> sublist p css)
       (css_url_unquoted ''images'' @ css_url_unquoted ''fonts'')"
    unfolding css_def by code_simp
  then have h5': "\<forall>p\<in>set (css_url_unquoted ''images'' @ css_url_unquoted ''fonts'').
       \<not> sublist p css"
    unfolding list_all_iff .
  have rh: "substitute_all html_href_literals (''href='' @ [dquote] @ ''build/assets/images/'')
           (substitute_all html_src_literals (''src='' @ [dquote] @ ''build/assets/images/'')
              html) =
       ''<img src='' @ [dquote] @ ''build/assets/images/logo.png'' @ [dquote]
          @ ''><a href='' @ [dquote] @ ''core/assets/images-extra/x'' @ [dquote]
          @ ''><link href='' @ [dquote] @ ''build/assets/images/i.ico'' @ [dquote] @ ''>''"
    unfolding html_def by code_simp
  have rc: "substitute_all [css_url_quoted ''fonts''] (''url('' @ [squote] @ ''build/assets/fonts/'')
           (substitute_all [css_url_quoted ''images'']
              (''url('' @ [squote] @ ''build/assets/images/'') css) =
       ''a{background:url('' @ [squote] @ ''build/assets/images/x.png'' @ [squote]
          @ '')}b{src:url('' @ [squote] @ ''build/assets/fonts/f.woff'' @ [squote]
          @ '')}c{background:url(core/assets/images-extra/y.png)}''"
    unfolding css_def by code_simp
  from updateAssetPaths_substitutes_literal_prefixes [OF h1 h2 h3 h4 h5']
  obtain fs' where d: "updateAssetPaths rewrite_fs = Done fs'"
    and oh: "lookup fs' indexHtml = Some (File
         (substitute_all html_href_literals (''href='' @ [dquote] @ ''build/assets/images/'')
           (substitute_all html_src_literals (''src='' @ [dquote] @ ''build/assets/images/'')
              html)))"
    and oc: "lookup fs' stylesCss = Some (File
         (substitute_all [css_url_quoted ''fonts''] (''url('' @ [squote] @ ''build/assets/fonts/'')
           (substitute_all [css_url_quoted ''images'']
              (''url('' @ [squote] @ ''build/assets/images/'') css)))"
    by blast
  have o1: "outputText (updateAssetPaths rewrite_fs) indexHtml = Inr
       (''<img src='' @ [dquote] @ ''build/assets/images/logo.png'' @ [dquote]
          @ ''><a href='' @ [dquote] @ ''core/assets/images-extra/x'' @ [dquote]
          @ ''><link href='' @ [dquote] @ ''build/assets/images/i.ico'' @ [dquote] @ ''>'')"
    unfolding d outputText.simps readFileSync_Inr oh rh ..
  have o2: "outputText (updateAssetPaths rewrite_fs) stylesCss = Inr
       (''a{background:url('' @ [squote] @ ''build/assets/images/x.png'' @ [squote]
          @ '')}b{src:url('' @ [squote] @ ''build/assets/fonts/f.woff'' @ [squote]
          @ '')}c{background:url(core/assets/images-extra/y.png)}'')"
    unfolding d outputText.simps readFileSync_Inr oc rc ..
  show ?thesis
    by (intro conjI h1[unfolded html_def] h2[unfolded html_def] h3[unfolded css_def]
        h4[unfolded css_def] h5[unfolded css_def] o1 o2)
qed

text \<open>
  C3 as stated fails: a double-quoted and an unquoted \<open>url(\<close> of the two core
  prefixes are not left as they are.
\<close>

theorem updateAssetPaths_quotes_counterexample:
  "readFileSync quoted_fs (path_join buildDir [''styles.css''])
     = Inr (''a{background:url('' @ [dquote] @ ''core/assets/images/x.png'' @ [dquote]
              @ '')}b{src:url(core/assets/fonts/f.woff)}'')
   \<and> outputText (updateAssetPaths quoted_fs) (path_join buildDir [''styles.css''])
     = Inr (''a{background:url('' @ [squote] @ ''build/assets/images/x.png'' @ [dquote]
              @ '')}b{src:url('' @ [squote] @ ''build/assets/fonts/f.woff)}'')"
  by code_simp

end
